theory Spec2Isabelle
  imports Main "HOL-Library.Sublist"
begin

section \<open>Strings and character classes\<close>

text \<open>
  Python strings are modelled as HOL strings; a \<^typ>\<open>char\<close> stands for a code point
  below 256. The three character classes below are those the source relies on:
  the regular-expression class \<^verbatim>\<open>[a-zA-Z0-9._-]\<close>, the white space of \<^verbatim>\<open>\s\<close>
  and \<^verbatim>\<open>str.strip()\<close>, and the line boundaries of \<^verbatim>\<open>str.splitlines()\<close>.
\<close>

definition is_name_char :: "char \<Rightarrow> bool" where
  "is_name_char c =
     (let n = (of_char c :: nat) in
        (97 \<le> n \<and> n \<le> 122) \<or> (65 \<le> n \<and> n \<le> 90) \<or> (48 \<le> n \<and> n \<le> 57)
        \<or> n = 46 \<or> n = 95 \<or> n = 45)"

definition is_space :: "char \<Rightarrow> bool" where
  "is_space c =
     (let n = (of_char c :: nat) in
        (9 \<le> n \<and> n \<le> 13) \<or> (28 \<le> n \<and> n \<le> 32) \<or> n = 133 \<or> n = 160)"

definition is_linebreak :: "char \<Rightarrow> bool" where
  "is_linebreak c =
     (let n = (of_char c :: nat) in
        (10 \<le> n \<and> n \<le> 13) \<or> (28 \<le> n \<and> n \<le> 30) \<or> n = 133)"

definition py_strip :: "string \<Rightarrow> string" where
  "py_strip s = rev (dropWhile is_space (rev (dropWhile is_space s)))"

text \<open>
  \<^verbatim>\<open>str.splitlines()\<close>: the text is cut at every line boundary, \<^verbatim>\<open>\r\n\<close> counting as
  one boundary; the boundaries are dropped and no empty last line is produced.
\<close>

fun splitlines :: "string \<Rightarrow> string list" where
  "splitlines [] = []"
| "splitlines [c] = (if is_linebreak c then [[]] else [[c]])"
| "splitlines (c # d # ds) =
     (if c = CHR 0x0D \<and> d = CHR 0x0A then [] # splitlines ds
      else if is_linebreak c then [] # splitlines (d # ds)
      else (case splitlines (d # ds) of
              [] \<Rightarrow> [[c]]
            | l # ls \<Rightarrow> (c # l) # ls))"

text \<open>
  A Python set of names that the source iterates over is kept as a list without
  duplicates; \<open>set_add\<close> is \<^verbatim>\<open>set.add\<close>. Python leaves the order of iteration over a
  set open; the lists are gone through in insertion order, and what is proved of the
  loops below holds for any list they are given.
\<close>

definition set_add :: "string \<Rightarrow> string list \<Rightarrow> string list" where
  "set_add x xs = (if x \<in> set xs then xs else xs @ [x])"

section \<open>The failure parser\<close>

text \<open>
  Both patterns of \<^verbatim>\<open>parse_pip_error_for_missing_deps\<close> have the shape
  \<^verbatim>\<open>PHRASE([a-zA-Z0-9._-]+)\<close>. \<open>match_here\<close> is the attempt to match such a pattern at
  the start of a string: the phrase, then the longest non-empty run of name characters
  (the group). \<open>re_search\<close> is \<^verbatim>\<open>pattern.search(line)\<close>: the leftmost position where
  the attempt succeeds.
\<close>

definition match_here :: "string \<Rightarrow> string \<Rightarrow> string option" where
  "match_here phrase s =
     (if prefix phrase s
      then (let tok = takeWhile is_name_char (drop (length phrase) s)
            in if tok = [] then None else Some tok)
      else None)"

fun re_search :: "string \<Rightarrow> string \<Rightarrow> string option" where
  "re_search phrase [] = match_here phrase []"
| "re_search phrase (c # cs) =
     (case match_here phrase (c # cs) of
        Some tok \<Rightarrow> Some tok
      | None \<Rightarrow> re_search phrase cs)"

definition pattern1 :: string where
  "pattern1 = ''No matching distribution found for ''"

definition pattern2 :: string where
  "pattern2 = ''Could not find a version that satisfies the requirement ''"

text \<open>
  The loop over the lines, with the set \<^verbatim>\<open>missing_deps\<close> as accumulator. A line on
  which the first pattern matches is finished by \<^verbatim>\<open>continue\<close>; the second pattern is
  searched only on the other lines.
\<close>

fun parse_lines :: "string list \<Rightarrow> string list \<Rightarrow> string list" where
  "parse_lines [] missing_deps = missing_deps"
| "parse_lines (line # rest) missing_deps =
     (case re_search pattern1 line of
        Some g \<Rightarrow> parse_lines rest (set_add (py_strip g) missing_deps)
      | None \<Rightarrow>
          (case re_search pattern2 line of
             Some g \<Rightarrow> parse_lines rest (set_add (py_strip g) missing_deps)
           | None \<Rightarrow> parse_lines rest missing_deps))"

definition parse_pip_error_for_missing_deps :: "string \<Rightarrow> string list" where
  "parse_pip_error_for_missing_deps error_output = parse_lines (splitlines error_output) []"

section \<open>The file system and the metadata extractor\<close>

text \<open>
  The file system is a map from paths to nodes. A node is a directory or a regular
  file; a regular file is a zip archive, given by its members in the order of
  \<^verbatim>\<open>namelist()\<close>, or any other file. Of a file that is not an archive, and of a member
  of an archive, only the behaviour under text reading is kept: the lines that
  iterating over the opened file yields, and whether the iteration then raises (a
  decoding error met in a later block of the file) instead of ending. A member whose
  data cannot be read at all is \<open>MetadataFile [] True\<close>.

  Paths are strings in normal form (components separated by single slashes, no
  \<^verbatim>\<open>.\<close> or \<^verbatim>\<open>..\<close> component), so that two strings name two places; the member names
  of an archive are relative paths of this form, as the wheel layout has them.
  Symbolic links and access rights are not part of the model.
\<close>

datatype metadata_file = MetadataFile (lines_read: "string list") (read_raises: bool)

datatype file_data = Wheel "(string \<times> metadata_file) list" | Plain metadata_file

datatype node = Dir | File file_data

type_synonym filesystem = "string \<Rightarrow> node option"

record 'x world =
  nodes :: filesystem
  ext :: 'x

text \<open>
  Exceptions are those that \<^verbatim>\<open>except Exception\<close> catches; interrupts of the process
  are not part of the model.
\<close>

datatype exn =
  FileNotFoundError | FileExistsError | NotADirectoryError | IsADirectoryError
  | BadZipFileError | UnicodeDecodeError | OtherException

text \<open>
  \<open>below d p\<close>: the path \<open>p\<close> lies under the directory path \<open>d\<close>. The ancestors of a
  path are the paths it lies under.
\<close>

definition below :: "string \<Rightarrow> string \<Rightarrow> bool" where
  "below d p = prefix (d @ ''/'') p"

definition ancestors :: "string \<Rightarrow> string list" where
  "ancestors p = map (\<lambda>i. take i p) (filter (\<lambda>i. p ! i = CHR ''/'') [1..<length p])"

fun is_file :: "node option \<Rightarrow> bool" where
  "is_file (Some (File f)) = True"
| "is_file (Some Dir) = False"
| "is_file None = False"

text \<open>
  \<^verbatim>\<open>os.makedirs(p, exist_ok=True)\<close>: raises when a regular file stands at the path or
  at one of its ancestors, and then changes nothing; else the path and its missing
  ancestors become directories.
\<close>

definition os_makedirs :: "string \<Rightarrow> filesystem \<Rightarrow> exn option \<times> filesystem" where
  "os_makedirs p fs =
     (if list_ex (\<lambda>q. is_file (fs q)) (ancestors p) then (Some NotADirectoryError, fs)
      else if is_file (fs p) then (Some FileExistsError, fs)
      else (None, (\<lambda>q. if q \<in> set (p # ancestors p) then Some Dir else fs q)))"

text \<open>
  \<^verbatim>\<open>shutil.rmtree(p)\<close>: a directory is removed with everything below it; on a regular
  file the call raises and removes nothing.
\<close>

definition shutil_rmtree :: "string \<Rightarrow> filesystem \<Rightarrow> exn option \<times> filesystem" where
  "shutil_rmtree p fs =
     (case fs p of
        None \<Rightarrow> (Some FileNotFoundError, fs)
      | Some Dir \<Rightarrow> (None, (\<lambda>q. if q = p \<or> below p q then None else fs q))
      | Some (File f) \<Rightarrow> (Some NotADirectoryError, fs))"

text \<open>\<^verbatim>\<open>zipfile.ZipFile(p, 'r')\<close> with \<^verbatim>\<open>namelist()\<close>: the members, or the exception.\<close>

definition zip_open :: "string \<Rightarrow> filesystem \<Rightarrow> exn + (string \<times> metadata_file) list" where
  "zip_open p fs =
     (case fs p of
        None \<Rightarrow> Inl FileNotFoundError
      | Some Dir \<Rightarrow> Inl IsADirectoryError
      | Some (File (Plain m)) \<Rightarrow> Inl BadZipFileError
      | Some (File (Wheel members)) \<Rightarrow> Inr members)"

text \<open>
  \<^verbatim>\<open>zip_ref.extract(name, dir)\<close>: the member is written to \<^verbatim>\<open>dir/name\<close>, and the missing
  directories above it are created. The call raises, and writes nothing, when a
  regular file stands at an ancestor of the target or a directory at the target.
\<close>

definition zip_extract ::
  "string \<times> metadata_file \<Rightarrow> string \<Rightarrow> filesystem \<Rightarrow> exn option \<times> filesystem" where
  "zip_extract member dir fs =
     (let target = dir @ ''/'' @ fst member in
      if list_ex (\<lambda>q. is_file (fs q)) (ancestors target) then (Some NotADirectoryError, fs)
      else if fs target = Some Dir then (Some IsADirectoryError, fs)
      else (None, (\<lambda>q. if q = target then Some (File (Plain (snd member)))
                        else if q \<in> set (ancestors target) then Some Dir
                        else fs q)))"

text \<open>
  \<^verbatim>\<open>open(p, 'r', encoding='utf-8')\<close> and the iteration over the lines: what is read, or
  the exception of the \<^verbatim>\<open>open\<close>.
\<close>

definition open_text :: "string \<Rightarrow> filesystem \<Rightarrow> exn + metadata_file" where
  "open_text p fs =
     (case fs p of
        None \<Rightarrow> Inl FileNotFoundError
      | Some Dir \<Rightarrow> Inl IsADirectoryError
      | Some (File (Plain m)) \<Rightarrow> Inr m
      | Some (File (Wheel members)) \<Rightarrow> Inr (MetadataFile [] True))"

text \<open>
  \<^verbatim>\<open>re.match(r'Requires-Dist:\s*([a-zA-Z0-9._-]+)', line)\<close>: anchored at the start of
  the line; white space and name characters are disjoint, so the greedy \<^verbatim>\<open>\s*\<close> never
  gives anything back.
\<close>

definition requires_dist_match :: "string \<Rightarrow> string option" where
  "requires_dist_match line =
     (if prefix ''Requires-Dist:'' line
      then (let tok = takeWhile is_name_char
                        (dropWhile is_space (drop (length ''Requires-Dist:'') line))
            in if tok = [] then None else Some tok)
      else None)"

fun scan_metadata :: "string list \<Rightarrow> string list \<Rightarrow> string list" where
  "scan_metadata [] dependencies = dependencies"
| "scan_metadata (line # rest) dependencies =
     (if prefix ''Requires-Dist:'' line
      then (case requires_dist_match line of
              Some g \<Rightarrow> scan_metadata rest (set_add (py_strip g) dependencies)
            | None \<Rightarrow> scan_metadata rest dependencies)
      else scan_metadata rest dependencies)"

definition find_metadata :: "(string \<times> metadata_file) list \<Rightarrow> (string \<times> metadata_file) option" where
  "find_metadata members = find (\<lambda>(name, _). suffix ''.dist-info/METADATA'' name) members"

text \<open>
  The block \<^verbatim>\<open>with zipfile.ZipFile(whl_path, 'r') as zip_ref\<close>: the exception it ends
  with, if any, the value of \<^verbatim>\<open>dependencies\<close> at that moment, and the file system. The
  set is filled line by line, so lines read before an exception have already
  contributed.
\<close>

definition with_zip_file ::
  "string \<Rightarrow> string \<Rightarrow> filesystem \<Rightarrow> (exn option \<times> string list) \<times> filesystem" where
  "with_zip_file whl_path temp_extract_dir fs =
     (case zip_open whl_path fs of
        Inl e \<Rightarrow> ((Some e, []), fs)
      | Inr members \<Rightarrow>
          (case find_metadata members of
             None \<Rightarrow> ((None, []), fs)
           | Some member \<Rightarrow>
               (case zip_extract member temp_extract_dir fs of
                  (Some e, fs1) \<Rightarrow> ((Some e, []), fs1)
                | (None, fs1) \<Rightarrow>
                    (case open_text (temp_extract_dir @ ''/'' @ fst member) fs1 of
                       Inl e \<Rightarrow> ((Some e, []), fs1)
                     | Inr m \<Rightarrow>
                         ((if read_raises m then Some UnicodeDecodeError else None,
                           scan_metadata (lines_read m) []), fs1)))))"

text \<open>The body of the \<^verbatim>\<open>try\<close> block: the temporary directory is made first.\<close>

definition try_extract ::
  "string \<Rightarrow> string \<Rightarrow> filesystem \<Rightarrow> (exn option \<times> string list) \<times> filesystem" where
  "try_extract whl_path temp_extract_dir fs =
     (case os_makedirs temp_extract_dir fs of
        (Some e, fs1) \<Rightarrow> ((Some e, []), fs1)
      | (None, fs1) \<Rightarrow> with_zip_file whl_path temp_extract_dir fs1)"

text \<open>
  The function itself. The handler \<^verbatim>\<open>except Exception\<close> only prints. The \<^verbatim>\<open>finally\<close>
  block removes the temporary directory if something exists at its path; it stands
  outside the handler, so an exception of \<^verbatim>\<open>shutil.rmtree\<close> leaves the function
  (\<open>Inl\<close>). Else \<^verbatim>\<open>dependencies\<close> is returned as it is (\<open>Inr\<close>).
\<close>

definition extract_dependencies_from_whl ::
  "string \<Rightarrow> 'x world \<Rightarrow> (exn + string list) \<times> 'x world" where
  "extract_dependencies_from_whl whl_path w =
     (let temp_extract_dir = whl_path @ ''_extracted_temp'' in
      case try_extract whl_path temp_extract_dir (nodes w) of
        ((raised, dependencies), fs1) \<Rightarrow>
          (if fs1 temp_extract_dir \<noteq> None
           then (case shutil_rmtree temp_extract_dir fs1 of
                   (Some e, fs2) \<Rightarrow> (Inl e, w\<lparr>nodes := fs2\<rparr>)
                 | (None, fs2) \<Rightarrow> (Inr dependencies, w\<lparr>nodes := fs2\<rparr>))
           else (Inr dependencies, w\<lparr>nodes := fs1\<rparr>)))"

section \<open>The orchestrator\<close>

text \<open>
  The two capabilities act on the world. \<^verbatim>\<open>fetch_func(name, download_dir)\<close> returns a
  path or \<^verbatim>\<open>None\<close>, or raises; \<^verbatim>\<open>subprocess.run(command, ...)\<close> returns the exit code
  with the captured output and error text, or raises.
\<close>

datatype fetch_outcome = Fetched "string option" | FetchRaised exn

datatype proc_outcome = Completed int string string | RunRaised exn

record 'x env =
  fetch_func :: "string \<Rightarrow> string \<Rightarrow> 'x world \<Rightarrow> fetch_outcome \<times> 'x world"
  subprocess_run :: "string list \<Rightarrow> 'x world \<Rightarrow> proc_outcome \<times> 'x world"
  sys_executable :: string

text \<open>Python's truth value of a \<^verbatim>\<open>str | None\<close>: \<^verbatim>\<open>None\<close> and the empty string are false.\<close>

definition truthy :: "string option \<Rightarrow> bool" where
  "truthy p = (case p of None \<Rightarrow> False | Some s \<Rightarrow> s \<noteq> [])"

text \<open>
  The state of a run: the world, the set \<^verbatim>\<open>downloaded_packages\<close>, and a record of the
  calls made to the two capabilities, oldest first. The record is not a variable of the
  source; it is kept so that calls can be counted and named.
\<close>

datatype event = FetchCall string fetch_outcome | PipCall "string list" proc_outcome

record 'x state =
  world :: "'x world"
  downloaded_packages :: "string set"
  trace :: "event list"

text \<open>
  The way a run ends, one label per exit of the source: the loop condition failing with
  \<^verbatim>\<open>installed_successfully\<close> true (\<open>Success\<close>) or false (\<open>MaxAttemptsExceeded\<close>), the
  early \<^verbatim>\<open>return False\<close> (\<open>MainPackageUnavailable\<close>), the three \<^verbatim>\<open>break\<close>s of the
  failure branch (\<open>Unparseable\<close>, \<open>Stalled\<close>, \<open>NoDownloadProgress\<close>), a \<^verbatim>\<open>break\<close> in one of
  the two \<^verbatim>\<open>except\<close> handlers (\<open>AttemptRaised\<close>), and an exception raised outside the
  \<^verbatim>\<open>try\<close> block, which leaves the function (\<open>Uncaught\<close>).
\<close>

datatype exit_path =
  Success | MainPackageUnavailable | Unparseable | Stalled | NoDownloadProgress
  | MaxAttemptsExceeded | AttemptRaised exn | Uncaught exn

text \<open>The loop over \<^verbatim>\<open>initial_deps\<close> (no \<^verbatim>\<open>try\<close> around it).\<close>

fun seed_loop :: "'x env \<Rightarrow> string \<Rightarrow> string list \<Rightarrow> 'x state \<Rightarrow> exn option \<times> 'x state" where
  "seed_loop E download_dir [] s = (None, s)"
| "seed_loop E download_dir (dep # deps) s =
     (if dep \<in> downloaded_packages s then seed_loop E download_dir deps s
      else (case fetch_func E dep download_dir (world s) of
              (FetchRaised e, w) \<Rightarrow>
                (Some e, s\<lparr>world := w, trace := trace s @ [FetchCall dep (FetchRaised e)]\<rparr>)
            | (Fetched dep_path, w) \<Rightarrow>
                seed_loop E download_dir deps
                  (s\<lparr>world := w,
                     downloaded_packages :=
                       (if truthy dep_path then insert dep (downloaded_packages s)
                        else downloaded_packages s),
                     trace := trace s @ [FetchCall dep (Fetched dep_path)]\<rparr>)))"

text \<open>
  The loop over \<^verbatim>\<open>newly_identified_deps\<close>, with \<^verbatim>\<open>download_success_count\<close> as second
  accumulator. It runs inside the \<^verbatim>\<open>try\<close> block: an exception ends it.
\<close>

fun download_loop ::
  "'x env \<Rightarrow> string \<Rightarrow> string list \<Rightarrow> nat \<Rightarrow> 'x state \<Rightarrow> exn option \<times> nat \<times> 'x state" where
  "download_loop E download_dir [] download_success_count s = (None, download_success_count, s)"
| "download_loop E download_dir (dep # deps) download_success_count s =
     (case fetch_func E dep download_dir (world s) of
        (FetchRaised e, w) \<Rightarrow>
          (Some e, download_success_count,
           s\<lparr>world := w, trace := trace s @ [FetchCall dep (FetchRaised e)]\<rparr>)
      | (Fetched dep_path, w) \<Rightarrow>
          (if truthy dep_path
           then download_loop E download_dir deps (download_success_count + 1)
                  (s\<lparr>world := w,
                     downloaded_packages := insert dep (downloaded_packages s),
                     trace := trace s @ [FetchCall dep (Fetched dep_path)]\<rparr>)
           else download_loop E download_dir deps download_success_count
                  (s\<lparr>world := w, trace := trace s @ [FetchCall dep (Fetched dep_path)]\<rparr>)))"

definition pip_command :: "'x env \<Rightarrow> string \<Rightarrow> string \<Rightarrow> string list" where
  "pip_command E download_dir main_package_name =
     [sys_executable E, ''-m'', ''pip'', ''install'', ''--no-index'', ''--find-links'',
      download_dir, main_package_name]"

text \<open>
  The \<^verbatim>\<open>while\<close> loop. \<open>attempt\<close> is the counter before its increment. The result is the
  final \<^verbatim>\<open>installed_successfully\<close>, the exit taken and the final state.
\<close>

function install_loop ::
  "'x env \<Rightarrow> string \<Rightarrow> string \<Rightarrow> int \<Rightarrow> bool \<Rightarrow> int \<Rightarrow> 'x state \<Rightarrow> bool \<times> exit_path \<times> 'x state" where
  "install_loop E main_package_name download_dir max_retries installed_successfully attempt s =
     (if \<not> installed_successfully \<and> attempt < max_retries
      then (let command = pip_command E download_dir main_package_name in
            case subprocess_run E command (world s) of
              (RunRaised e, w) \<Rightarrow>
                (False, AttemptRaised e,
                 s\<lparr>world := w, trace := trace s @ [PipCall command (RunRaised e)]\<rparr>)
            | (Completed returncode out err, w) \<Rightarrow>
                (let s1 = s\<lparr>world := w,
                             trace := trace s @ [PipCall command (Completed returncode out err)]\<rparr>
                 in if returncode = 0
                    then install_loop E main_package_name download_dir max_retries True
                           (attempt + 1) s1
                    else (let missing_deps = parse_pip_error_for_missing_deps err in
                          if missing_deps = [] then (False, Unparseable, s1)
                          else (let newly_identified_deps =
                                      filter (\<lambda>d. d \<notin> downloaded_packages s1) missing_deps
                                in if newly_identified_deps = [] then (False, Stalled, s1)
                                   else (case download_loop E download_dir
                                                newly_identified_deps 0 s1 of
                                           (Some e, n, s2) \<Rightarrow> (False, AttemptRaised e, s2)
                                         | (None, n, s2) \<Rightarrow>
                                             (if n = 0 \<and> length newly_identified_deps > 0
                                              then (False, NoDownloadProgress, s2)
                                              else install_loop E main_package_name
                                                     download_dir max_retries False
                                                     (attempt + 1) s2))))))
      else (installed_successfully,
            if installed_successfully then Success else MaxAttemptsExceeded, s))"
  by pat_completeness auto
termination
  by (relation "measure (\<lambda>(E, m, d, max_retries, i, attempt, s). nat (max_retries - attempt))")
     auto

declare install_loop.simps [simp del]

text \<open>
  What the caller of \<^verbatim>\<open>install_packages_locally\<close> gets: the returned boolean, or an
  exception.
\<close>

datatype outcome = Returned bool | Raised exn

record 'x finished =
  outcome :: outcome
  left_by :: exit_path
  final :: "'x state"

definition run :: "'x env \<Rightarrow> string \<Rightarrow> string \<Rightarrow> int \<Rightarrow> 'x world \<Rightarrow> 'x finished" where
  "run E main_package_name download_dir max_retries w0 =
     (case fetch_func E main_package_name download_dir w0 of
        (FetchRaised e, w) \<Rightarrow>
          \<lparr>outcome = Raised e, left_by = Uncaught e,
           final = \<lparr>world = w, downloaded_packages = {},
                    trace = [FetchCall main_package_name (FetchRaised e)]\<rparr>\<rparr>
      | (Fetched main_package_path, w) \<Rightarrow>
          (let s0 = \<lparr>world = w, downloaded_packages = {},
                     trace = [FetchCall main_package_name (Fetched main_package_path)]\<rparr>
           in case main_package_path of
                None \<Rightarrow> \<lparr>outcome = Returned False, left_by = MainPackageUnavailable, final = s0\<rparr>
              | Some path \<Rightarrow>
                  (if path = []
                   then \<lparr>outcome = Returned False, left_by = MainPackageUnavailable, final = s0\<rparr>
                   else (case extract_dependencies_from_whl path w of
                           (Inl e, w1) \<Rightarrow>
                             \<lparr>outcome = Raised e, left_by = Uncaught e,
                              final = s0\<lparr>world := w1,
                                        downloaded_packages := {main_package_name}\<rparr>\<rparr>
                         | (Inr initial_deps, w1) \<Rightarrow>
                             (case seed_loop E download_dir initial_deps
                                     (s0\<lparr>world := w1,
                                         downloaded_packages := {main_package_name}\<rparr>) of
                                (Some e, s2) \<Rightarrow>
                                  \<lparr>outcome = Raised e, left_by = Uncaught e, final = s2\<rparr>
                              | (None, s2) \<Rightarrow>
                                  (case install_loop E main_package_name download_dir
                                          max_retries False 0 s2 of
                                     (installed_successfully, how, s3) \<Rightarrow>
                                       \<lparr>outcome = Returned installed_successfully,
                                        left_by = how, final = s3\<rparr>))))))"

definition install_packages_locally ::
  "'x env \<Rightarrow> string \<Rightarrow> string \<Rightarrow> int \<Rightarrow> 'x world \<Rightarrow> outcome" where
  "install_packages_locally E main_package_name download_dir max_retries w0 =
     outcome (run E main_package_name download_dir max_retries w0)"

text \<open>
  The value the caller gets at each exit: \<^verbatim>\<open>installed_successfully\<close> is true only when
  the loop condition fails after a pip run with exit code 0; the early \<^verbatim>\<open>return\<close> and
  every \<^verbatim>\<open>break\<close> leave it false.
\<close>

fun result_at :: "exit_path \<Rightarrow> outcome" where
  "result_at Success = Returned True"
| "result_at MainPackageUnavailable = Returned False"
| "result_at Unparseable = Returned False"
| "result_at Stalled = Returned False"
| "result_at NoDownloadProgress = Returned False"
| "result_at MaxAttemptsExceeded = Returned False"
| "result_at (AttemptRaised e) = Returned False"
| "result_at (Uncaught e) = Raised e"

text \<open>Reading the record of calls.\<close>

fun is_pip_call :: "event \<Rightarrow> bool" where
  "is_pip_call (PipCall c r) = True"
| "is_pip_call (FetchCall n r) = False"

definition install_invocations :: "event list \<Rightarrow> nat" where
  "install_invocations tr = length (filter is_pip_call tr)"

fun fetched_name :: "event \<Rightarrow> string list" where
  "fetched_name (FetchCall n r) = [n]"
| "fetched_name (PipCall c r) = []"

definition fetch_calls :: "event list \<Rightarrow> string list" where
  "fetch_calls tr = concat (map fetched_name tr)"

section \<open>Predicates used in the statements\<close>

text \<open>
  \<open>recognised phrase text\<close>: somewhere in the text the phrase stands, followed by at
  least one name character, that is, the pattern \<^verbatim>\<open>PHRASE([a-zA-Z0-9._-]+)\<close> has a match
  in the text.
\<close>

definition phrase_at :: "string \<Rightarrow> string \<Rightarrow> nat \<Rightarrow> bool" where
  "phrase_at phrase text i =
     (take (length phrase) (drop i text) = phrase
      \<and> i + length phrase < length text
      \<and> is_name_char (text ! (i + length phrase)))"

definition recognised :: "string \<Rightarrow> string \<Rightarrow> bool" where
  "recognised phrase text = list_ex (phrase_at phrase text) [0..<length text]"

text \<open>The names for which a recorded fetch call returned a path (a non-empty string).\<close>

fun path_returned :: "event \<Rightarrow> string list" where
  "path_returned (FetchCall n (Fetched (Some p))) = (if p = [] then [] else [n])"
| "path_returned (FetchCall n (Fetched None)) = []"
| "path_returned (FetchCall n (FetchRaised e)) = []"
| "path_returned (PipCall c r) = []"

definition fetched_ok :: "event list \<Rightarrow> string set" where
  "fetched_ok tr = set (concat (map path_returned tr))"

text \<open>
  The invariant of \<^verbatim>\<open>downloaded_packages\<close>: every name in it is the main package or a
  name for which a fetch call of this run returned a path.
\<close>

definition downloaded_inv :: "string \<Rightarrow> 'x state \<Rightarrow> bool" where
  "downloaded_inv main_package_name s =
     (downloaded_packages s \<subseteq> insert main_package_name (fetched_ok (trace s)))"

text \<open>A pip run that exited with status 0 is on record.\<close>

fun exited_zero :: "event \<Rightarrow> bool" where
  "exited_zero (PipCall c (Completed returncode out err)) = (returncode = 0)"
| "exited_zero (PipCall c (RunRaised e)) = False"
| "exited_zero (FetchCall n r) = False"

text \<open>
  Capabilities of the scenario of a stall: a fetch capability that always returns a
  path, and an install capability that always fails with an error text from which
  exactly the one name \<open>x\<close> is parsed.
\<close>

definition fetch_always_succeeds :: "'x env \<Rightarrow> bool" where
  "fetch_always_succeeds E =
     (\<forall>n d w. \<exists>p w'. fetch_func E n d w = (Fetched (Some p), w') \<and> p \<noteq> [])"

definition install_always_reports :: "'x env \<Rightarrow> string \<Rightarrow> bool" where
  "install_always_reports E x =
     (\<forall>c w. \<exists>returncode out err w'.
        subprocess_run E c w = (Completed returncode out err, w') \<and> returncode \<noteq> 0
        \<and> parse_pip_error_for_missing_deps err = [x])"

section \<open>Concrete inputs\<close>

text \<open>One line of error text that holds both trigger phrases.\<close>

definition both_phrases_line :: string where
  "both_phrases_line =
     ''ERROR: No matching distribution found for alpha; Could not find a version that satisfies the requirement beta''"

text \<open>
  A wheel on disk whose METADATA declares one dependency; the same wheel with a
  METADATA whose reading raises a decoding error after the three header lines have
  been read (the undecodable byte lies in a later block of the file, for instance in
  a long description); and the first wheel again, with directories left at the place
  where the extraction writes its copy of METADATA.
\<close>

definition wheel_path :: string where
  "wheel_path = ''downloads/pkg-1.0-py3-none-any.whl''"

definition foo_metadata :: "string list" where
  "foo_metadata =
     [''Metadata-Version: 2.1'' @ [CHR 0x0A],
      ''Name: pkg'' @ [CHR 0x0A],
      ''Requires-Dist: foo (>=1.0,<2)'' @ [CHR 0x0A]]"

definition foo_wheel :: file_data where
  "foo_wheel =
     Wheel [(''pkg/__init__.py'', MetadataFile [] False),
            (''pkg-1.0.dist-info/METADATA'', MetadataFile foo_metadata False)]"

definition foo_world :: "unit world" where
  "foo_world =
     \<lparr>nodes = [''downloads'' \<mapsto> Dir, wheel_path \<mapsto> File foo_wheel], ext = ()\<rparr>"

definition undecodable_world :: "unit world" where
  "undecodable_world =
     \<lparr>nodes = [''downloads'' \<mapsto> Dir,
               wheel_path \<mapsto> File (Wheel [(''pkg-1.0.dist-info/METADATA'',
                                            MetadataFile foo_metadata True)])],
      ext = ()\<rparr>"

definition occupied_world :: "unit world" where
  "occupied_world =
     \<lparr>nodes = [''downloads'' \<mapsto> Dir, wheel_path \<mapsto> File foo_wheel,
               wheel_path @ ''_extracted_temp'' \<mapsto> Dir,
               wheel_path @ ''_extracted_temp/pkg-1.0.dist-info'' \<mapsto> Dir,
               wheel_path @ ''_extracted_temp/pkg-1.0.dist-info/METADATA'' \<mapsto> Dir],
      ext = ()\<rparr>"

text \<open>
  Capabilities for concrete runs, on worlds without further state. \<open>fetch_known\<close> finds
  the listed names and no other; \<open>fetch_any\<close> finds every name. Both make the download
  directory and put a wheel without METADATA into it. \<open>pip_fails\<close> always exits with
  status 1 and the given error text.
\<close>

definition empty_world :: "unit world" where
  "empty_world = \<lparr>nodes = Map.empty, ext = ()\<rparr>"

definition fetch_known ::
  "string list \<Rightarrow> string \<Rightarrow> string \<Rightarrow> unit world \<Rightarrow> fetch_outcome \<times> unit world" where
  "fetch_known known n d w =
     (if n \<in> set known
      then (let path = d @ ''/'' @ n @ ''-1.0-py3-none-any.whl''
            in (Fetched (Some path),
                w\<lparr>nodes := (nodes w)(d \<mapsto> Dir, path \<mapsto> File (Wheel []))\<rparr>))
      else (Fetched None, w))"

definition fetch_any :: "string \<Rightarrow> string \<Rightarrow> unit world \<Rightarrow> fetch_outcome \<times> unit world" where
  "fetch_any n d w =
     (let path = d @ ''/'' @ n @ ''-1.0-py3-none-any.whl''
      in (Fetched (Some path),
          w\<lparr>nodes := (nodes w)(d \<mapsto> Dir, path \<mapsto> File (Wheel []))\<rparr>))"

definition pip_fails :: "string \<Rightarrow> string list \<Rightarrow> unit world \<Rightarrow> proc_outcome \<times> unit world" where
  "pip_fails err c w = (Completed 1 [] err, w)"

definition two_missing :: string where
  "two_missing =
     ''ERROR: No matching distribution found for liba'' @ [CHR 0x0A]
     @ ''ERROR: No matching distribution found for libb''"

definition env_partial :: "unit env" where
  "env_partial =
     \<lparr>fetch_func = fetch_known [''app'', ''liba''],
      subprocess_run = pip_fails two_missing,
      sys_executable = ''python''\<rparr>"

definition env_absent :: "unit env" where
  "env_absent =
     \<lparr>fetch_func = fetch_known [],
      subprocess_run = pip_fails two_missing,
      sys_executable = ''python''\<rparr>"

definition env_unparseable :: "unit env" where
  "env_unparseable =
     \<lparr>fetch_func = fetch_known [''app''],
      subprocess_run = pip_fails ''error: subprocess-exited-with-error'',
      sys_executable = ''python''\<rparr>"

definition env_stall :: "unit env" where
  "env_stall =
     \<lparr>fetch_func = fetch_any,
      subprocess_run = pip_fails ''ERROR: No matching distribution found for libx'',
      sys_executable = ''python''\<rparr>"

text \<open>
  A world in which a regular file stands where the extraction of the wheel of \<^verbatim>\<open>app\<close>
  makes its temporary directory.
\<close>

definition blocked_world :: "unit world" where
  "blocked_world =
     \<lparr>nodes = [''downloads'' \<mapsto> Dir,
               ''downloads/app-1.0-py3-none-any.whl_extracted_temp''
                 \<mapsto> File (Plain (MetadataFile [] False))],
      ext = ()\<rparr>"

text \<open>The state of a run right after the main package \<^verbatim>\<open>app\<close> has been fetched.\<close>

definition seeded_state :: "unit state" where
  "seeded_state =
     \<lparr>world = empty_world, downloaded_packages = {''app''},
      trace = [FetchCall ''app'' (Fetched (Some ''downloads/app-1.0-py3-none-any.whl''))]\<rparr>"

text \<open>A pip that succeeds, and a state in which \<^verbatim>\<open>libx\<close> has already been fetched.\<close>

definition pip_succeeds :: "string list \<Rightarrow> unit world \<Rightarrow> proc_outcome \<times> unit world" where
  "pip_succeeds c w = (Completed 0 ''Successfully installed app-1.0'' [], w)"

definition env_success :: "unit env" where
  "env_success =
     \<lparr>fetch_func = fetch_known [''app''],
      subprocess_run = pip_succeeds,
      sys_executable = ''python''\<rparr>"

definition stalled_state :: "unit state" where
  "stalled_state =
     \<lparr>world = empty_world, downloaded_packages = {''app'', ''libx''},
      trace = [FetchCall ''app'' (Fetched (Some ''downloads/app-1.0-py3-none-any.whl'')),
               FetchCall ''libx'' (Fetched (Some ''downloads/libx-1.0-py3-none-any.whl''))]\<rparr>"


section \<open>Properties of the failure parser\<close>

lemma name_char_not_space: "is_name_char c \<Longrightarrow> \<not> is_space c"
  by (auto simp: is_name_char_def is_space_def Let_def)

lemma dropWhile_space_token:
  "\<forall>c\<in>set tok. is_name_char c \<Longrightarrow> dropWhile is_space tok = tok"
  by (cases tok) (simp_all add: name_char_not_space)

lemma py_strip_token: "\<forall>c\<in>set tok. is_name_char c \<Longrightarrow> py_strip tok = tok"
proof -
  assume all: "\<forall>c\<in>set tok. is_name_char c"
  then have "\<forall>c\<in>set (rev tok). is_name_char c" by simp
  then have "dropWhile is_space (rev tok) = rev tok" by (rule dropWhile_space_token)
  with all show ?thesis by (simp add: py_strip_def dropWhile_space_token)
qed

lemma match_here_Some:
  "match_here phrase s = Some tok \<Longrightarrow>
     tok \<noteq> [] \<and> (\<forall>c\<in>set tok. is_name_char c) \<and> prefix (phrase @ tok) s"
  by (auto simp: match_here_def Let_def prefix_def split: if_splits dest: set_takeWhileD)
     (metis append_take_drop_id takeWhile_eq_take append_eq_conv_conj takeWhile_dropWhile_id)

lemma match_here_None_iff:
  "match_here phrase s = None \<longleftrightarrow> \<not> (\<exists>c post. s = phrase @ c # post \<and> is_name_char c)"
proof
  assume n: "match_here phrase s = None"
  show "\<not> (\<exists>c post. s = phrase @ c # post \<and> is_name_char c)"
  proof
    assume "\<exists>c post. s = phrase @ c # post \<and> is_name_char c"
    then obtain c post where "s = phrase @ c # post" "is_name_char c" by blast
    then have "match_here phrase s \<noteq> None" by (simp add: match_here_def)
    with n show False by simp
  qed
next
  assume h: "\<not> (\<exists>c post. s = phrase @ c # post \<and> is_name_char c)"
  show "match_here phrase s = None"
  proof (cases "prefix phrase s")
    case False then show ?thesis by (simp add: match_here_def)
  next
    case True
    then obtain r where r: "s = phrase @ r" by (auto simp: prefix_def)
    with h have "takeWhile is_name_char r = []" by (cases r) auto
    with r show ?thesis by (simp add: match_here_def)
  qed
qed

lemma re_search_None_iff:
  "re_search phrase s = None \<longleftrightarrow>
     \<not> (\<exists>pre c post. s = pre @ phrase @ c # post \<and> is_name_char c)"
proof (induction s)
  case Nil
  show ?case by (simp add: match_here_None_iff)
next
  case (Cons a s)
  have split: "(\<exists>pre c post. a # s = pre @ phrase @ c # post \<and> is_name_char c) \<longleftrightarrow>
      (\<exists>c post. a # s = phrase @ c # post \<and> is_name_char c)
      \<or> (\<exists>pre c post. s = pre @ phrase @ c # post \<and> is_name_char c)"
  proof
    assume "\<exists>pre c post. a # s = pre @ phrase @ c # post \<and> is_name_char c"
    then obtain pre c post where e: "a # s = pre @ phrase @ c # post" "is_name_char c" by blast
    show "(\<exists>c post. a # s = phrase @ c # post \<and> is_name_char c)
      \<or> (\<exists>pre c post. s = pre @ phrase @ c # post \<and> is_name_char c)"
    proof (cases pre)
      case Nil with e show ?thesis by auto
    next
      case (Cons b pre')
      with e have "s = pre' @ phrase @ c # post" by simp
      with e(2) show ?thesis by blast
    qed
  next
    assume "(\<exists>c post. a # s = phrase @ c # post \<and> is_name_char c)
      \<or> (\<exists>pre c post. s = pre @ phrase @ c # post \<and> is_name_char c)"
    then show "\<exists>pre c post. a # s = pre @ phrase @ c # post \<and> is_name_char c"
    proof
      assume "\<exists>c post. a # s = phrase @ c # post \<and> is_name_char c"
      then show ?thesis by (metis append_Nil)
    next
      assume "\<exists>pre c post. s = pre @ phrase @ c # post \<and> is_name_char c"
      then show ?thesis by (metis append_Cons)
    qed
  qed
  show ?case
  proof (cases "match_here phrase (a # s)")
    case None
    then show ?thesis using Cons.IH None split match_here_None_iff[of phrase "a # s"] by simp
  next
    case (Some tok)
    then have "match_here phrase (a # s) \<noteq> None" by simp
    then show ?thesis using Some split match_here_None_iff[of phrase "a # s"] by simp
  qed
qed

lemma re_search_Some:
  "re_search phrase s = Some tok \<Longrightarrow> tok \<noteq> [] \<and> (\<forall>c\<in>set tok. is_name_char c)"
  by (induction s) (auto split: option.splits dest: match_here_Some)

lemma recognised_iff:
  "recognised phrase text \<longleftrightarrow>
     (\<exists>pre c post. text = pre @ phrase @ c # post \<and> is_name_char c)"
proof
  assume "recognised phrase text"
  then obtain i where i: "phrase_at phrase text i"
    by (auto simp: recognised_def list_ex_iff)
  then have t: "take (length phrase) (drop i text) = phrase"
    and l: "i + length phrase < length text"
    and n: "is_name_char (text ! (i + length phrase))"
    by (auto simp: phrase_at_def)
  have "text = take i text @ drop i text" by simp
  also have "drop i text = phrase @ drop (length phrase) (drop i text)"
    using t by (metis append_take_drop_id)
  also have "drop (length phrase) (drop i text) = drop (i + length phrase) text"
    by (simp add: add.commute)
  also have "\<dots> = text ! (i + length phrase) # drop (Suc (i + length phrase)) text"
    using l by (simp add: Cons_nth_drop_Suc)
  finally show "\<exists>pre c post. text = pre @ phrase @ c # post \<and> is_name_char c"
    using n by blast
next
  assume "\<exists>pre c post. text = pre @ phrase @ c # post \<and> is_name_char c"
  then obtain pre c post where e: "text = pre @ phrase @ c # post" and n: "is_name_char c"
    by blast
  have "phrase_at phrase text (length pre)"
    using e n by (simp add: phrase_at_def nth_append)
  moreover have "length pre < length text" using e by simp
  ultimately show "recognised phrase text"
    by (auto simp: recognised_def list_ex_iff)
qed

lemma re_search_None_recognised: "re_search phrase s = None \<longleftrightarrow> \<not> recognised phrase s"
  by (simp add: re_search_None_iff recognised_iff)

lemma splitlines_first:
  "splitlines t = l # ls \<Longrightarrow> prefix l t"
proof (induction t arbitrary: l ls rule: splitlines.induct)
  case 1
  then show ?case by simp
next
  case (2 c)
  then show ?case by (auto split: if_splits)
next
  case (3 c d ds)
  show ?case
  proof (cases "(c = CHR 0x0D \<and> d = CHR 0x0A) \<or> is_linebreak c")
    case True
    with 3(4) have "l = []" by (auto split: if_splits)
    then show ?thesis by simp
  next
    case False
    show ?thesis
    proof (cases "splitlines (d # ds)")
      case Nil
      with 3(4) False have "l = [c]" by auto
      then show ?thesis by simp
    next
      case (Cons l' ls')
      with 3(4) False have l: "l = c # l'" by auto
      have "prefix l' (d # ds)" using 3(3) False Cons by blast
      with l show ?thesis by simp
    qed
  qed
qed

lemma splitlines_part:
  "l \<in> set (splitlines t) \<Longrightarrow> \<exists>pre post. t = pre @ l @ post"
proof (induction t arbitrary: l rule: splitlines.induct)
  case 1
  then show ?case by simp
next
  case (2 c)
  then show ?case by (auto split: if_splits intro: exI[of _ "[]"])
next
  case (3 c d ds)
  have "c # d # ds = [] @ [] @ (c # d # ds)" by simp
  then have emp: "\<exists>pre post. c # d # ds = pre @ [] @ post" by blast
  show ?case
  proof (cases "c = CHR 0x0D \<and> d = CHR 0x0A")
    case True
    with 3(4) have "l = [] \<or> l \<in> set (splitlines ds)" by auto
    then show ?thesis
    proof
      assume "l = []" with emp show ?thesis by simp
    next
      assume "l \<in> set (splitlines ds)"
      then obtain pre post where "ds = pre @ l @ post" using 3(1) True by blast
      then have "c # d # ds = (c # d # pre) @ l @ post" by simp
      then show ?thesis by blast
    qed
  next
    case False
    note nf = False
    show ?thesis
    proof (cases "is_linebreak c")
      case True
      with 3(4) nf have "l = [] \<or> l \<in> set (splitlines (d # ds))" by auto
      then show ?thesis
      proof
        assume "l = []" with emp show ?thesis by simp
      next
        assume "l \<in> set (splitlines (d # ds))"
        then obtain pre post where "d # ds = pre @ l @ post" using 3(2) nf True by blast
        then have "c # d # ds = (c # pre) @ l @ post" by simp
        then show ?thesis by blast
      qed
    next
      case False
      show ?thesis
      proof (cases "splitlines (d # ds)")
        case Nil
        with 3(4) nf False have "l = [c]" by auto
        then have "c # d # ds = [] @ l @ (d # ds)" by simp
        then show ?thesis by blast
      next
        case (Cons l' ls)
        with 3(4) nf False have "l = c # l' \<or> l \<in> set ls" by auto
        then show ?thesis
        proof
          assume l: "l = c # l'"
          have "prefix l' (d # ds)" using Cons by (rule splitlines_first)
          then obtain post where "d # ds = l' @ post" by (auto simp: prefix_def)
          with l have "c # d # ds = [] @ l @ post" by simp
          then show ?thesis by blast
        next
          assume "l \<in> set ls"
          then have "l \<in> set (splitlines (d # ds))" using Cons by simp
          then obtain pre post where "d # ds = pre @ l @ post"
            using 3(3) nf False by blast
          then have "c # d # ds = (c # pre) @ l @ post" by simp
          then show ?thesis by blast
        qed
      qed
    qed
  qed
qed

lemma recognised_line:
  assumes "l \<in> set (splitlines t)" and "recognised phrase l"
  shows "recognised phrase t"
proof -
  from assms(1) obtain pre post where t: "t = pre @ l @ post"
    using splitlines_part by blast
  from assms(2) obtain pre' c post' where "l = pre' @ phrase @ c # post'" "is_name_char c"
    by (auto simp: recognised_iff)
  with t have "t = (pre @ pre') @ phrase @ c # (post' @ post)" by simp
  with \<open>is_name_char c\<close> show ?thesis unfolding recognised_iff by blast
qed

lemma parse_lines_unrecognised:
  "\<forall>l\<in>set ls. re_search pattern1 l = None \<and> re_search pattern2 l = None \<Longrightarrow>
     parse_lines ls acc = acc"
  by (induction ls arbitrary: acc) simp_all


lemma set_set_add: "set (set_add x xs) = insert x (set xs)"
  by (auto simp: set_add_def)

lemma set_parse_lines:
  "set (parse_lines ls acc) =
     set acc \<union> {g. \<exists>l\<in>set ls. re_search pattern1 l = Some g}
     \<union> {g. \<exists>l\<in>set ls. re_search pattern1 l = None \<and> re_search pattern2 l = Some g}"
proof (induction ls arbitrary: acc)
  case Nil
  show ?case by simp
next
  case (Cons l ls)
  show ?case
  proof (cases "re_search pattern1 l")
    case (Some g)
    then have "py_strip g = g" using re_search_Some py_strip_token by blast
    with Some show ?thesis by (auto simp: Cons.IH set_set_add)
  next
    case None
    note n1 = None
    show ?thesis
    proof (cases "re_search pattern2 l")
      case (Some g)
      then have "py_strip g = g" using re_search_Some py_strip_token by blast
      with Some n1 show ?thesis by (auto simp: Cons.IH set_set_add)
    next
      case None
      with n1 show ?thesis by (auto simp: Cons.IH)
    qed
  qed
qed

text \<open>
  Claim C7. The text \<^verbatim>\<open>ERROR: No matching distribution found for bar\<close> is parsed to
  exactly the name \<^verbatim>\<open>bar\<close>; and a text in which neither pattern has a match anywhere
  is parsed to the empty set, an ordinary value of the total function.
\<close>

theorem parse_precision:
  "parse_pip_error_for_missing_deps ''ERROR: No matching distribution found for bar'' = [''bar'']
   \<and> (\<not> recognised pattern1 text \<and> \<not> recognised pattern2 text
        \<longrightarrow> parse_pip_error_for_missing_deps text = [])"
proof
  show "parse_pip_error_for_missing_deps ''ERROR: No matching distribution found for bar'' = [''bar'']"
    by code_simp
  show "\<not> recognised pattern1 text \<and> \<not> recognised pattern2 text
        \<longrightarrow> parse_pip_error_for_missing_deps text = []"
  proof
    assume h: "\<not> recognised pattern1 text \<and> \<not> recognised pattern2 text"
    have "\<forall>l\<in>set (splitlines text). re_search pattern1 l = None \<and> re_search pattern2 l = None"
      using h recognised_line by (auto simp: re_search_None_recognised)
    then show "parse_pip_error_for_missing_deps text = []"
      by (simp add: parse_pip_error_for_missing_deps_def parse_lines_unrecognised)
  qed
qed

theorem parse_precision_witness:
  "\<not> recognised pattern1 ''error: subprocess-exited-with-error''
   \<and> \<not> recognised pattern2 ''error: subprocess-exited-with-error''
   \<and> parse_pip_error_for_missing_deps ''error: subprocess-exited-with-error'' = []
   \<and> parse_pip_error_for_missing_deps ''ERROR: No matching distribution found for bar'' = [''bar'']"
proof -
  have a: "\<not> recognised pattern1 ''error: subprocess-exited-with-error''" by code_simp
  have b: "\<not> recognised pattern2 ''error: subprocess-exited-with-error''" by code_simp
  show ?thesis
    using a b parse_precision [of "''error: subprocess-exited-with-error''"] by blast
qed

text \<open>
  Claim C6, as stated, fails: on a line that holds both phrases, with the names
  \<^verbatim>\<open>alpha\<close> and \<^verbatim>\<open>beta\<close>, only \<^verbatim>\<open>alpha\<close> is returned; the \<^verbatim>\<open>continue\<close> after the first
  pattern skips the second.
\<close>

theorem both_recognizers_counterexample:
  "re_search pattern1 both_phrases_line = Some ''alpha''
   \<and> re_search pattern2 both_phrases_line = Some ''beta''
   \<and> splitlines both_phrases_line = [both_phrases_line]
   \<and> parse_pip_error_for_missing_deps both_phrases_line = [''alpha'']
   \<and> ''beta'' \<notin> set (parse_pip_error_for_missing_deps both_phrases_line)"
  by code_simp

text \<open>
  Claim C6, amended. On each line the patterns are tried in order and the first that
  matches ends the line: the result holds the first pattern's name of every line on
  which it matches, and the second pattern's name only of the lines on which the first
  does not match. So a one-line text on which the first pattern finds \<open>a\<close> is parsed to
  \<open>a\<close> alone, whatever else the line holds.
\<close>

theorem first_recognizer_wins:
  "set (parse_pip_error_for_missing_deps text) =
     {g. \<exists>l\<in>set (splitlines text). re_search pattern1 l = Some g}
     \<union> {g. \<exists>l\<in>set (splitlines text).
              re_search pattern1 l = None \<and> re_search pattern2 l = Some g}
   \<and> (splitlines text = [text] \<and> re_search pattern1 text = Some a
        \<longrightarrow> parse_pip_error_for_missing_deps text = [a])"
proof
  show "set (parse_pip_error_for_missing_deps text) =
     {g. \<exists>l\<in>set (splitlines text). re_search pattern1 l = Some g}
     \<union> {g. \<exists>l\<in>set (splitlines text).
              re_search pattern1 l = None \<and> re_search pattern2 l = Some g}"
    by (simp add: parse_pip_error_for_missing_deps_def set_parse_lines)
  show "splitlines text = [text] \<and> re_search pattern1 text = Some a
        \<longrightarrow> parse_pip_error_for_missing_deps text = [a]"
  proof
    assume h: "splitlines text = [text] \<and> re_search pattern1 text = Some a"
    then have "py_strip a = a" using re_search_Some py_strip_token by blast
    with h show "parse_pip_error_for_missing_deps text = [a]"
      by (simp add: parse_pip_error_for_missing_deps_def set_add_def)
  qed
qed

theorem first_recognizer_wins_witness:
  "splitlines both_phrases_line = [both_phrases_line]
   \<and> re_search pattern1 both_phrases_line = Some ''alpha''
   \<and> parse_pip_error_for_missing_deps both_phrases_line = [''alpha'']"
proof -
  have a: "splitlines both_phrases_line = [both_phrases_line]" by code_simp
  have b: "re_search pattern1 both_phrases_line = Some ''alpha''" by code_simp
  show ?thesis
    using a b first_recognizer_wins [of both_phrases_line "''alpha''"] by blast
qed

section \<open>Properties of the metadata extractor\<close>

text \<open>Paths: the ancestors of a path, the archive and its temporary directory.\<close>

lemma set_ancestors: "set (ancestors p) = {q. q \<noteq> [] \<and> below q p}"
proof (intro set_eqI iffI)
  fix q assume "q \<in> set (ancestors p)"
  then obtain i where i: "1 \<le> i" "i < length p" "p ! i = CHR ''/''" and q: "q = take i p"
    by (auto simp: ancestors_def)
  have "p = take i p @ p ! i # drop (Suc i) p" using i(2) by (rule id_take_nth_drop)
  then have "p = (q @ ''/'') @ drop (Suc i) p" using i(3) q by simp
  then have "prefix (q @ ''/'') p" by (metis prefixI)
  moreover have "q \<noteq> []" using i q by auto
  ultimately show "q \<in> {q. q \<noteq> [] \<and> below q p}" by (simp add: below_def)
next
  fix q assume "q \<in> {q. q \<noteq> [] \<and> below q p}"
  then have ne: "q \<noteq> []" and "prefix (q @ ''/'') p" by (simp_all add: below_def)
  then obtain r where p: "p = q @ ''/'' @ r" by (auto simp: prefix_def)
  have "1 \<le> length q" using ne by (cases q) auto
  moreover have "length q < length p" using p by simp
  moreover have "p ! length q = CHR ''/''" using p by (simp add: nth_append)
  moreover have "take (length q) p = q" using p by simp
  ultimately show "q \<in> set (ancestors p)"
    unfolding ancestors_def by (auto simp: image_iff intro!: bexI[of _ "length q"])
qed

lemma below_length: "below d p \<Longrightarrow> length d < length p"
  by (auto simp: below_def prefix_def)

lemma wheel_not_below_temp: "\<not> below (p @ ''_extracted_temp'') p"
  using below_length[of "p @ ''_extracted_temp''" p] by auto

lemma temp_not_below_wheel: "\<not> below p (p @ ''_extracted_temp'')"
  by (simp add: below_def)

lemma wheel_untouched:
  "p \<noteq> p @ ''_extracted_temp''" "p \<notin> set (ancestors (p @ ''_extracted_temp''))"
  by (simp_all add: set_ancestors temp_not_below_wheel)

lemma ancestor_not_below: "q \<in> set (ancestors t) \<Longrightarrow> q \<noteq> t \<and> \<not> below t q"
  using below_length[of q t] below_length[of t q] by (auto simp: set_ancestors)

lemma ancestors_target:
  assumes "q \<in> set (ancestors (t @ ''/'' @ n))"
  shows "q = t \<or> below t q \<or> q \<in> set (ancestors t)"
proof -
  from assms have ne: "q \<noteq> []" and pre: "prefix (q @ ''/'') (t @ ''/'' @ n)"
    by (simp_all add: set_ancestors below_def)
  from pre consider "prefix (q @ ''/'') t"
    | us where "q @ ''/'' = t @ us" "prefix us (''/'' @ n)"
    by (auto simp: prefix_append)
  then show ?thesis
  proof cases
    case 1
    with ne show ?thesis by (simp add: set_ancestors below_def)
  next
    case 2
    show ?thesis
    proof (cases us)
      case Nil
      with 2 have "prefix (q @ ''/'') t" by simp
      with ne show ?thesis by (simp add: set_ancestors below_def)
    next
      case (Cons u us')
      with 2(2) have u: "u = CHR ''/''" by simp
      show ?thesis
      proof (cases us' rule: rev_cases)
        case Nil
        with 2(1) Cons u show ?thesis by simp
      next
        case (snoc vs v)
        with 2(1) Cons u have "q @ ''/'' = (t @ ''/'' @ vs) @ [v]" by simp
        then have "q = t @ ''/'' @ vs" by (metis append1_eq_conv)
        then show ?thesis by (simp add: below_def)
      qed
    qed
  qed
qed

text \<open>
  What the extraction into the temporary directory \<open>t\<close> can change: only \<open>t\<close>, what lies
  below it, and its ancestors, and directories there stay directories.
\<close>

lemma zip_extract_frame:
  assumes "zip_extract member t fs = (r, fs')"
  shows "\<forall>q. q \<noteq> t \<and> \<not> below t q \<and> q \<notin> set (ancestors t) \<longrightarrow> fs' q = fs q"
    and "fs t = Some Dir \<longrightarrow> fs' t = Some Dir"
    and "\<forall>q\<in>set (ancestors t). fs q = Some Dir \<longrightarrow> fs' q = Some Dir"
proof -
  let ?target = "t @ ''/'' @ fst member"
  have tb: "below t ?target" by (simp add: below_def)
  have a: "q \<noteq> ?target \<and> q \<notin> set (ancestors ?target)"
    if "q \<noteq> t" "\<not> below t q" "q \<notin> set (ancestors t)" for q
    using that tb ancestors_target[of q t "fst member"] by auto
  have b: "t \<noteq> ?target" by simp
  have c: "q \<noteq> ?target" if "q \<in> set (ancestors t)" for q
    using that below_length[of q t] by (auto simp: set_ancestors)
  show "\<forall>q. q \<noteq> t \<and> \<not> below t q \<and> q \<notin> set (ancestors t) \<longrightarrow> fs' q = fs q"
    using assms a by (auto simp: zip_extract_def Let_def split: if_splits)
  show "fs t = Some Dir \<longrightarrow> fs' t = Some Dir"
    using assms b by (auto simp: zip_extract_def Let_def split: if_splits)
  show "\<forall>q\<in>set (ancestors t). fs q = Some Dir \<longrightarrow> fs' q = Some Dir"
    using assms c by (auto simp: zip_extract_def Let_def split: if_splits)
qed

lemma with_zip_file_frame:
  assumes "with_zip_file p t fs = (rd, fs')"
  shows "\<forall>q. q \<noteq> t \<and> \<not> below t q \<and> q \<notin> set (ancestors t) \<longrightarrow> fs' q = fs q"
    and "fs t = Some Dir \<longrightarrow> fs' t = Some Dir"
    and "\<forall>q\<in>set (ancestors t). fs q = Some Dir \<longrightarrow> fs' q = Some Dir"
proof -
  have "fs' = fs \<or> (\<exists>member r. zip_extract member t fs = (r, fs'))"
    using assms
    by (auto simp: with_zip_file_def split: sum.splits option.splits prod.splits)
  then show "\<forall>q. q \<noteq> t \<and> \<not> below t q \<and> q \<notin> set (ancestors t) \<longrightarrow> fs' q = fs q"
    and "fs t = Some Dir \<longrightarrow> fs' t = Some Dir"
    and "\<forall>q\<in>set (ancestors t). fs q = Some Dir \<longrightarrow> fs' q = Some Dir"
    using zip_extract_frame by blast+
qed

lemma with_zip_file_wheel:
  "fs p = fs' p \<Longrightarrow> zip_open p fs = zip_open p fs'"
  by (simp add: zip_open_def)


text \<open>
  Two extractions in a row, when nothing stands at the temporary path before the
  first: the first leaves the file system as it found it, up to ancestors of the
  temporary path that it made, so the second goes the same way.
\<close>

lemma extract_unfold:
  "try_extract p (p @ ''_extracted_temp'') (nodes w) = ((r, deps), fs1) \<Longrightarrow>
     extract_dependencies_from_whl p w =
       (if fs1 (p @ ''_extracted_temp'') \<noteq> None
        then (case shutil_rmtree (p @ ''_extracted_temp'') fs1 of
                (Some e, fs2) \<Rightarrow> (Inl e, w\<lparr>nodes := fs2\<rparr>)
              | (None, fs2) \<Rightarrow> (Inr deps, w\<lparr>nodes := fs2\<rparr>))
        else (Inr deps, w\<lparr>nodes := fs1\<rparr>))"
  by (simp add: extract_dependencies_from_whl_def Let_def)

lemma extract_twice:
  fixes w :: "'x world"
  assumes c1: "nodes w (p @ ''_extracted_temp'') = None"
    and c2: "\<forall>q. below (p @ ''_extracted_temp'') q \<longrightarrow> nodes w q = None"
  shows "\<exists>deps w1 w2. extract_dependencies_from_whl p w = (Inr deps, w1)
     \<and> extract_dependencies_from_whl p w1 = (Inr deps, w2)"
proof -
  define t where "t = p @ ''_extracted_temp''"
  define fs where "fs = nodes w"
  note c1' = c1[folded t_def fs_def] and c2' = c2[folded t_def fs_def]
  show ?thesis
  proof (cases "list_ex (\<lambda>q. is_file (fs q)) (ancestors t)")
    case True
    then have "try_extract p t fs = ((Some NotADirectoryError, []), fs)"
      by (simp add: try_extract_def os_makedirs_def)
    then have "extract_dependencies_from_whl p w = (Inr [], w)"
      using extract_unfold[of p w "Some NotADirectoryError" "[]" fs] c1'
      by (simp add: t_def fs_def)
    then show ?thesis by simp
  next
    case False
    define fs1 :: filesystem where
      "fs1 = (\<lambda>q. if q \<in> set (t # ancestors t) then Some Dir else fs q)"
    have mk: "os_makedirs t fs = (None, fs1)"
      using False c1' by (simp add: os_makedirs_def fs1_def)
    obtain r deps fs2 where wz: "with_zip_file p t fs1 = ((r, deps), fs2)"
      by (metis surj_pair)
    have try1: "try_extract p t fs = ((r, deps), fs2)"
      using mk wz by (simp add: try_extract_def)
    have d1: "fs1 t = Some Dir" by (simp add: fs1_def)
    have d2: "\<forall>q\<in>set (ancestors t). fs1 q = Some Dir" by (simp add: fs1_def)
    have t2: "fs2 t = Some Dir" using with_zip_file_frame(2)[OF wz] d1 by simp
    have a2: "\<forall>q\<in>set (ancestors t). fs2 q = Some Dir"
      using with_zip_file_frame(3)[OF wz] d2 by simp
    have f2: "\<forall>q. q \<noteq> t \<and> \<not> below t q \<and> q \<notin> set (ancestors t) \<longrightarrow> fs2 q = fs1 q"
      using with_zip_file_frame(1)[OF wz] .
    define rm :: filesystem where "rm = (\<lambda>q. if q = t \<or> below t q then None else fs2 q)"
    have rmt: "shutil_rmtree t fs2 = (None, rm)"
      using t2 by (simp add: shutil_rmtree_def rm_def)
    define w1 where "w1 = w\<lparr>nodes := rm\<rparr>"
    have first: "extract_dependencies_from_whl p w = (Inr deps, w1)"
      using extract_unfold[of p w r deps fs2] try1 t2 rmt
      by (simp add: t_def fs_def w1_def)
    have anc_rm: "\<forall>q\<in>set (ancestors t). rm q = Some Dir"
      using a2 ancestor_not_below[of _ t] by (auto simp: rm_def)
    have nofile: "\<not> list_ex (\<lambda>q. is_file (rm q)) (ancestors t)"
      using anc_rm by (auto simp: list_ex_iff)
    have rm_t: "rm t = None" by (simp add: rm_def)
    have same: "(\<lambda>q. if q \<in> set (t # ancestors t) then Some Dir else rm q) = fs1"
    proof
      fix q
      show "(if q \<in> set (t # ancestors t) then Some Dir else rm q) = fs1 q"
      proof (cases "q \<in> set (t # ancestors t)")
        case True
        then show ?thesis by (simp add: fs1_def)
      next
        case out: False
        show ?thesis
        proof (cases "below t q")
          case True
          with out c2' show ?thesis by (simp add: rm_def fs1_def)
        next
          case False
          with out f2 have "fs2 q = fs1 q" by simp
          with out False show ?thesis by (simp add: rm_def)
        qed
      qed
    qed
    have mk2: "os_makedirs t rm = (None, fs1)"
      using nofile rm_t same by (simp add: os_makedirs_def)
    have try2: "try_extract p t (nodes w1) = ((r, deps), fs2)"
      using mk2 wz by (simp add: try_extract_def w1_def)
    have second: "extract_dependencies_from_whl p w1 = (Inr deps, w1\<lparr>nodes := rm\<rparr>)"
      using extract_unfold[of p w1 r deps fs2] try2 t2 rmt
      by (simp add: t_def)
    from first second show ?thesis by blast
  qed
qed

text \<open>
  The group of the \<^verbatim>\<open>Requires-Dist\<close> pattern is the run of name characters that follows
  the field name and any white space; what follows the run is dropped.
\<close>

lemma requires_dist_token:
  assumes ws: "\<forall>c\<in>set ws. is_space c"
    and ne: "name \<noteq> []" and nm: "\<forall>c\<in>set name. is_name_char c"
    and rest: "rest = [] \<or> \<not> is_name_char (hd rest)"
  shows "requires_dist_match (''Requires-Dist:'' @ ws @ name @ rest) = Some name"
proof -
  have a: "dropWhile is_space (ws @ name @ rest) = name @ rest"
  proof -
    have "dropWhile is_space (name @ rest) = name @ rest"
      using ne nm by (cases name) (simp_all add: name_char_not_space)
    then show ?thesis using ws by (simp add: dropWhile_append3 dropWhile_append)
  qed
  have b: "takeWhile is_name_char (name @ rest) = name"
    using nm rest by (cases rest) (simp_all add: takeWhile_tail)
  have c: "drop (length ''Requires-Dist:'') (''Requires-Dist:'' @ ws @ name @ rest) = ws @ name @ rest"
    by simp
  have d: "prefix ''Requires-Dist:'' (''Requires-Dist:'' @ ws @ name @ rest)"
    by simp
  show ?thesis
    unfolding requires_dist_match_def using ne by (simp only: a b c d if_True Let_def) simp
qed

lemma scan_requires_dist:
  assumes "\<forall>c\<in>set ws. is_space c" "name \<noteq> []" "\<forall>c\<in>set name. is_name_char c"
    "rest = [] \<or> \<not> is_name_char (hd rest)"
  shows "scan_metadata ((''Requires-Dist:'' @ ws @ name @ rest) # ls) dependencies
     = scan_metadata ls (set_add name dependencies)"
proof -
  have m: "requires_dist_match (''Requires-Dist:'' @ ws @ name @ rest) = Some name"
    using assms by (rule requires_dist_token)
  have s: "py_strip name = name" using assms(3) by (rule py_strip_token)
  have p: "prefix ''Requires-Dist:'' (''Requires-Dist:'' @ ws @ name @ rest)" by simp
  show ?thesis
    by (simp only: scan_metadata.simps p m s if_True option.case)
qed

lemma scan_foo_line:
  "scan_metadata (''Requires-Dist: foo (>=1.0,<2)'' # ls) dependencies
     = scan_metadata ls (set_add ''foo'' dependencies)"
proof -
  have a: "\<forall>c\<in>set '' ''. is_space c" by (simp add: is_space_def)
  have b: "''foo'' \<noteq> []" by simp
  have c: "\<forall>c\<in>set ''foo''. is_name_char c" by (simp add: is_name_char_def)
  have d: "'' (>=1.0,<2)'' = [] \<or> \<not> is_name_char (hd '' (>=1.0,<2)'')"
    by (simp add: is_name_char_def)
  show ?thesis using scan_requires_dist[OF a b c d, of ls dependencies] by simp
qed

text \<open>
  Claim C9, as stated, fails: the result depends on what lies at the temporary path.
  Here a directory stands where the copy of METADATA is written; the first extraction
  fails to write it and returns the empty set, its cleanup removes the directory, and
  the second extraction from the unchanged archive returns \<^verbatim>\<open>{foo}\<close>.
\<close>

theorem leftover_directory_counterexample:
  "nodes occupied_world wheel_path = nodes foo_world wheel_path
   \<and> fst (extract_dependencies_from_whl wheel_path occupied_world) = Inr []
   \<and> nodes (snd (extract_dependencies_from_whl wheel_path occupied_world)) wheel_path
       = nodes occupied_world wheel_path
   \<and> fst (extract_dependencies_from_whl wheel_path
            (snd (extract_dependencies_from_whl wheel_path occupied_world))) = Inr [''foo'']"
  by code_simp

text \<open>
  Claim C9, amended. If nothing exists at the path \<^verbatim>\<open><whl_path>_extracted_temp\<close> or
  below it, the extraction returns, and a second extraction from the same path
  returns the same names. A line \<^verbatim>\<open>Requires-Dist: foo (>=1.0,<2)\<close> contributes exactly
  the name \<^verbatim>\<open>foo\<close>; in general a line made of the field name, white space, a non-empty
  run of name characters and a rest that does not go on with a name character
  contributes exactly that run.
\<close>

theorem extraction_repeatable:
  "(nodes w (whl_path @ ''_extracted_temp'') = None
      \<and> (\<forall>q. below (whl_path @ ''_extracted_temp'') q \<longrightarrow> nodes w q = None)
    \<longrightarrow> (\<exists>deps w1 w2. extract_dependencies_from_whl whl_path w = (Inr deps, w1)
           \<and> extract_dependencies_from_whl whl_path w1 = (Inr deps, w2)))
   \<and> scan_metadata (''Requires-Dist: foo (>=1.0,<2)'' # ls) dependencies
       = scan_metadata ls (set_add ''foo'' dependencies)
   \<and> ((\<forall>c\<in>set ws. is_space c) \<and> name \<noteq> [] \<and> (\<forall>c\<in>set name. is_name_char c)
        \<and> (rest = [] \<or> \<not> is_name_char (hd rest))
      \<longrightarrow> scan_metadata ((''Requires-Dist:'' @ ws @ name @ rest) # ls) dependencies
           = scan_metadata ls (set_add name dependencies))"
  using extract_twice[of w whl_path] scan_foo_line[of ls dependencies]
    scan_requires_dist[of ws name rest ls dependencies]
  by blast

theorem extraction_repeatable_witness:
  "nodes foo_world (wheel_path @ ''_extracted_temp'') = None
   \<and> fst (extract_dependencies_from_whl wheel_path foo_world) = Inr [''foo'']
   \<and> fst (extract_dependencies_from_whl wheel_path
            (snd (extract_dependencies_from_whl wheel_path foo_world))) = Inr [''foo'']
   \<and> scan_metadata [''Requires-Dist:  bar-baz_2.x; python_version >= 3.8''] [] = [''bar-baz_2.x'']"
proof -
  have a: "nodes foo_world (wheel_path @ ''_extracted_temp'') = None" by code_simp
  have nb: "\<not> below (wheel_path @ ''_extracted_temp'') ''downloads''"
    "\<not> below (wheel_path @ ''_extracted_temp'') wheel_path" by code_simp+
  have b: "\<forall>q. below (wheel_path @ ''_extracted_temp'') q \<longrightarrow> nodes foo_world q = None"
    using nb by (auto simp: foo_world_def)
  have c: "fst (extract_dependencies_from_whl wheel_path foo_world) = Inr [''foo'']"
    by code_simp
  have d: "\<forall>c\<in>set ''  ''. is_space c" by (simp add: is_space_def)
  have e: "''bar-baz_2.x'' \<noteq> []" by simp
  have f: "\<forall>c\<in>set ''bar-baz_2.x''. is_name_char c" by (simp add: is_name_char_def)
  have g: "''; python_version >= 3.8'' = [] \<or> \<not> is_name_char (hd ''; python_version >= 3.8'')"
    by (simp add: is_name_char_def)
  have h: "set_add ''bar-baz_2.x'' [] = [''bar-baz_2.x'']" by (simp add: set_add_def)
  show ?thesis
    using a b c d e f g h
      extraction_repeatable[of foo_world wheel_path "[]" "[]" "''  ''" "''bar-baz_2.x''"
        "''; python_version >= 3.8''"]
    by auto
qed

text \<open>
  Claim C8 does not hold of the code when the failure comes while the METADATA lines
  are being read: the names of the lines read before the exception stay in
  \<^verbatim>\<open>dependencies\<close>, and the handler returns them. Here the result is \<^verbatim>\<open>{foo}\<close>, not the
  empty set.
\<close>

theorem partial_result_after_read_error:
  "fst (with_zip_file wheel_path (wheel_path @ ''_extracted_temp'')
          (snd (os_makedirs (wheel_path @ ''_extracted_temp'') (nodes undecodable_world))))
     = (Some UnicodeDecodeError, [''foo''])
   \<and> fst (try_extract wheel_path (wheel_path @ ''_extracted_temp'') (nodes undecodable_world))
     = (Some UnicodeDecodeError, [''foo''])
   \<and> fst (extract_dependencies_from_whl wheel_path undecodable_world) = Inr [''foo'']"
  by code_simp

section \<open>Properties of the orchestrator\<close>

text \<open>
  The \<^verbatim>\<open>while\<close> loop, unfolded once: it is left when the condition fails, when the
  pip run raises, or after one attempt by one of the exits of the loop body; else it
  goes on with the next attempt.
\<close>

lemma install_loop_exit:
  "inst \<or> \<not> attempt < mx \<Longrightarrow>
     install_loop E m d mx inst attempt s
       = (inst, if inst then Success else MaxAttemptsExceeded, s)"
  by (subst install_loop.simps) auto

lemma install_loop_run_raised:
  "\<not> inst \<Longrightarrow> attempt < mx \<Longrightarrow>
   subprocess_run E (pip_command E d m) (world s) = (RunRaised e, w) \<Longrightarrow>
     install_loop E m d mx inst attempt s
       = (False, AttemptRaised e,
          s\<lparr>world := w, trace := trace s @ [PipCall (pip_command E d m) (RunRaised e)]\<rparr>)"
  by (subst install_loop.simps) simp

lemma install_loop_completed:
  assumes "\<not> inst" "attempt < mx"
    and "subprocess_run E (pip_command E d m) (world s) = (Completed rc out err, w)"
    and "s1 = s\<lparr>world := w,
                 trace := trace s @ [PipCall (pip_command E d m) (Completed rc out err)]\<rparr>"
    and "new = filter (\<lambda>x. x \<notin> downloaded_packages s1) (parse_pip_error_for_missing_deps err)"
    and "download_loop E d new 0 s1 = (r2, n, s2)"
  shows "install_loop E m d mx inst attempt s =
     (if rc = 0 then (True, Success, s1)
      else if parse_pip_error_for_missing_deps err = [] then (False, Unparseable, s1)
      else if new = [] then (False, Stalled, s1)
      else (case r2 of
              Some e \<Rightarrow> (False, AttemptRaised e, s2)
            | None \<Rightarrow> if n = 0 then (False, NoDownloadProgress, s2)
                      else install_loop E m d mx False (attempt + 1) s2))"
proof (cases "rc = 0")
  case True
  have "install_loop E m d mx inst attempt s = install_loop E m d mx True (attempt + 1) s1"
    using assms(1-4) True by (subst install_loop.simps) simp
  then show ?thesis using True by (simp add: install_loop_exit)
next
  case False
  show ?thesis
    using assms False
    by (subst install_loop.simps) (auto simp: Let_def split: option.splits)
qed

text \<open>
  An induction rule on the result of the loop: a property of the loop's start and
  result holds if it holds at each exit and carries over an attempt that goes on.
\<close>

lemma install_loop_result_induct:
  assumes exit: "\<And>inst attempt s. inst \<or> \<not> attempt < mx \<Longrightarrow>
      P inst attempt s (inst, if inst then Success else MaxAttemptsExceeded, s)"
    and raised: "\<And>attempt s e w. attempt < mx \<Longrightarrow>
      subprocess_run E (pip_command E d m) (world s) = (RunRaised e, w) \<Longrightarrow>
      P False attempt s (False, AttemptRaised e,
          s\<lparr>world := w, trace := trace s @ [PipCall (pip_command E d m) (RunRaised e)]\<rparr>)"
    and completed: "\<And>attempt s rc out err w s1 new r2 n s2. attempt < mx \<Longrightarrow>
      subprocess_run E (pip_command E d m) (world s) = (Completed rc out err, w) \<Longrightarrow>
      s1 = s\<lparr>world := w,
            trace := trace s @ [PipCall (pip_command E d m) (Completed rc out err)]\<rparr> \<Longrightarrow>
      new = filter (\<lambda>x. x \<notin> downloaded_packages s1) (parse_pip_error_for_missing_deps err) \<Longrightarrow>
      download_loop E d new 0 s1 = (r2, n, s2) \<Longrightarrow>
      (rc \<noteq> 0 \<Longrightarrow> new \<noteq> [] \<Longrightarrow> r2 = None \<Longrightarrow> n \<noteq> 0 \<Longrightarrow>
         P False (attempt + 1) s2 (install_loop E m d mx False (attempt + 1) s2)) \<Longrightarrow>
      P False attempt s
        (if rc = 0 then (True, Success, s1)
         else if parse_pip_error_for_missing_deps err = [] then (False, Unparseable, s1)
         else if new = [] then (False, Stalled, s1)
         else (case r2 of
                 Some e \<Rightarrow> (False, AttemptRaised e, s2)
               | None \<Rightarrow> if n = 0 then (False, NoDownloadProgress, s2)
                         else install_loop E m d mx False (attempt + 1) s2))"
  shows "P inst attempt s (install_loop E m d mx inst attempt s)"
proof (induction "nat (mx - attempt)" arbitrary: inst attempt s rule: less_induct)
  case less
  show ?case
  proof (cases "\<not> inst \<and> attempt < mx")
    case False
    then show ?thesis using exit[of inst attempt s] by (simp add: install_loop_exit)
  next
    case True
    then have ni: "inst = False" and lt: "attempt < mx" by auto
    obtain r w where run: "subprocess_run E (pip_command E d m) (world s) = (r, w)"
      by (cases "subprocess_run E (pip_command E d m) (world s)")
    show ?thesis
    proof (cases r)
      case (RunRaised e)
      with run lt ni show ?thesis
        using raised[of attempt s e w] by (simp add: install_loop_run_raised)
    next
      case (Completed rc out err)
      define s1 where "s1 = s\<lparr>world := w,
        trace := trace s @ [PipCall (pip_command E d m) (Completed rc out err)]\<rparr>"
      define new where "new = filter (\<lambda>x. x \<notin> downloaded_packages s1)
        (parse_pip_error_for_missing_deps err)"
      obtain r2 n s2 where dl: "download_loop E d new 0 s1 = (r2, n, s2)"
        by (cases "download_loop E d new 0 s1") auto
      have run': "subprocess_run E (pip_command E d m) (world s) = (Completed rc out err, w)"
        using run Completed by simp
      have "nat (mx - (attempt + 1)) < nat (mx - attempt)" using lt by simp
      then have IH: "P False (attempt + 1) s2 (install_loop E m d mx False (attempt + 1) s2)"
        by (rule less.hyps)
      have ni': "\<not> inst" using ni by simp
      show ?thesis
        unfolding install_loop_completed[OF ni' lt run' s1_def new_def dl]
        using completed[OF lt run' s1_def new_def dl IH] ni by simp
    qed
  qed
qed

text \<open>Only the \<^verbatim>\<open>while\<close> loop runs pip, once per attempt.\<close>

lemma pip_seed_loop:
  "install_invocations (trace (snd (seed_loop E d deps s))) = install_invocations (trace s)"
  by (induction deps arbitrary: s)
     (auto simp: install_invocations_def split: prod.splits fetch_outcome.splits)

lemma pip_download_loop:
  "install_invocations (trace (snd (snd (download_loop E d deps n s))))
     = install_invocations (trace s)"
  by (induction deps arbitrary: s n)
     (auto simp: install_invocations_def split: prod.splits fetch_outcome.splits)

lemma pip_install_loop:
  "install_invocations (trace (snd (snd (install_loop E m d mx inst attempt s))))
     \<le> install_invocations (trace s) + (if inst then 0 else nat (mx - attempt))"
proof (rule install_loop_result_induct
    [where P = "\<lambda>inst attempt s r. install_invocations (trace (snd (snd r)))
       \<le> install_invocations (trace s) + (if inst then 0 else nat (mx - attempt))"])
  fix inst :: bool and attempt :: int and s :: "'a state"
  show "install_invocations (trace (snd (snd (inst, if inst then Success else MaxAttemptsExceeded, s))))
     \<le> install_invocations (trace s) + (if inst then 0 else nat (mx - attempt))"
    by simp
next
  fix attempt s e w
  assume "attempt < mx"
  then show "install_invocations (trace (snd (snd (False, AttemptRaised e,
          s\<lparr>world := w, trace := trace s @ [PipCall (pip_command E d m) (RunRaised e)]\<rparr>))))
     \<le> install_invocations (trace s) + (if False then 0 else nat (mx - attempt))"
    by (simp add: install_invocations_def)
next
  fix attempt s rc out err w s1 new r2 n s2
  assume lt: "attempt < mx"
    and s1: "s1 = s\<lparr>world := w,
            trace := trace s @ [PipCall (pip_command E d m) (Completed rc out err)]\<rparr>"
    and dl: "download_loop E d new 0 s1 = (r2, n, s2)"
    and IH: "rc \<noteq> 0 \<Longrightarrow> new \<noteq> [] \<Longrightarrow> r2 = None \<Longrightarrow> n \<noteq> 0 \<Longrightarrow>
      install_invocations (trace (snd (snd (install_loop E m d mx False (attempt + 1) s2))))
       \<le> install_invocations (trace s2) + (if False then 0 else nat (mx - (attempt + 1)))"
  have c1: "install_invocations (trace s1) = Suc (install_invocations (trace s))"
    by (simp add: s1 install_invocations_def)
  have c2: "install_invocations (trace s2) = install_invocations (trace s1)"
    using pip_download_loop[of E d new 0 s1] dl by simp
  have c3: "Suc (nat (mx - (attempt + 1))) = nat (mx - attempt)" using lt by simp
  show "install_invocations (trace (snd (snd
        (if rc = 0 then (True, Success, s1)
         else if parse_pip_error_for_missing_deps err = [] then (False, Unparseable, s1)
         else if new = [] then (False, Stalled, s1)
         else (case r2 of
                 Some e \<Rightarrow> (False, AttemptRaised e, s2)
               | None \<Rightarrow> if n = 0 then (False, NoDownloadProgress, s2)
                         else install_loop E m d mx False (attempt + 1) s2)))))
     \<le> install_invocations (trace s) + (if False then 0 else nat (mx - attempt))"
    using IH c1 c2 c3 lt by (auto split: option.splits)
qed

text \<open>
  The shape of a run: the fetch of the main package raises, or reports absence, or the
  metadata extraction raises in its cleanup, or the seed loop raises, or the
  \<^verbatim>\<open>while\<close> loop is entered and its result returned.
\<close>

lemma run_cases [case_names fetch_raised absent extract_raised seed_raised looped]:
  obtains
    (fetch_raised) e w where
      "fetch_func E m d w0 = (FetchRaised e, w)"
      "run E m d mx w0 =
         \<lparr>outcome = Raised e, left_by = Uncaught e,
          final = \<lparr>world = w, downloaded_packages = {},
                   trace = [FetchCall m (FetchRaised e)]\<rparr>\<rparr>"
  | (absent) p w where
      "fetch_func E m d w0 = (Fetched p, w)" "\<not> truthy p"
      "run E m d mx w0 =
         \<lparr>outcome = Returned False, left_by = MainPackageUnavailable,
          final = \<lparr>world = w, downloaded_packages = {},
                   trace = [FetchCall m (Fetched p)]\<rparr>\<rparr>"
  | (extract_raised) path w e w1 where
      "fetch_func E m d w0 = (Fetched (Some path), w)" "path \<noteq> []"
      "extract_dependencies_from_whl path w = (Inl e, w1)"
      "run E m d mx w0 =
         \<lparr>outcome = Raised e, left_by = Uncaught e,
          final = \<lparr>world = w1, downloaded_packages = {m},
                   trace = [FetchCall m (Fetched (Some path))]\<rparr>\<rparr>"
  | (seed_raised) path w deps w1 e s2 where
      "fetch_func E m d w0 = (Fetched (Some path), w)" "path \<noteq> []"
      "extract_dependencies_from_whl path w = (Inr deps, w1)"
      "seed_loop E d deps
         \<lparr>world = w1, downloaded_packages = {m},
          trace = [FetchCall m (Fetched (Some path))]\<rparr> = (Some e, s2)"
      "run E m d mx w0 = \<lparr>outcome = Raised e, left_by = Uncaught e, final = s2\<rparr>"
  | (looped) path w deps w1 s2 b how s3 where
      "fetch_func E m d w0 = (Fetched (Some path), w)" "path \<noteq> []"
      "extract_dependencies_from_whl path w = (Inr deps, w1)"
      "seed_loop E d deps
         \<lparr>world = w1, downloaded_packages = {m},
          trace = [FetchCall m (Fetched (Some path))]\<rparr> = (None, s2)"
      "install_loop E m d mx False 0 s2 = (b, how, s3)"
      "run E m d mx w0 = \<lparr>outcome = Returned b, left_by = how, final = s3\<rparr>"
proof -
  obtain r w where f: "fetch_func E m d w0 = (r, w)"
    by (cases "fetch_func E m d w0")
  show ?thesis
  proof (cases r)
    case (FetchRaised e)
    with f show ?thesis by (intro fetch_raised[of e w]) (simp_all add: run_def)
  next
    case (Fetched p)
    show ?thesis
    proof (cases "truthy p")
      case False
      with f Fetched show ?thesis
        by (intro absent[of p w]) (auto simp: run_def truthy_def split: option.splits)
    next
      case True
      then obtain path where p: "p = Some path" "path \<noteq> []"
        by (auto simp: truthy_def split: option.splits)
      obtain x w1 where x: "extract_dependencies_from_whl path w = (x, w1)"
        by (cases "extract_dependencies_from_whl path w")
      show ?thesis
      proof (cases x)
        case (Inl e)
        show ?thesis
          using f Fetched p x Inl
          by (intro extract_raised[of path w e w1]) (simp_all add: run_def)
      next
        case (Inr deps)
        define s1 :: "'a state" where "s1 = \<lparr>world = w1, downloaded_packages = {m},
            trace = [FetchCall m (Fetched (Some path))]\<rparr>"
        obtain r2 s2 where sd: "seed_loop E d deps s1 = (r2, s2)"
          by (cases "seed_loop E d deps s1")
        obtain b how s3 where il: "install_loop E m d mx False 0 s2 = (b, how, s3)"
          by (cases "install_loop E m d mx False 0 s2") auto
        show ?thesis
        proof (cases r2)
          case (Some e)
          show ?thesis
            using f Fetched p x Inr sd Some
            by (intro seed_raised[of path w deps w1 e s2]) (simp_all add: run_def s1_def)
        next
          case None
          show ?thesis
            using f Fetched p x Inr sd None il
            by (intro looped[of path w deps w1 s2 b how s3]) (simp_all add: run_def s1_def)
        qed
      qed
    qed
  qed
qed

lemma run_installs:
  "install_invocations (trace (final (run E m d mx w0))) \<le> nat mx"
proof (cases rule: run_cases[of E m d w0 mx])
  case (fetch_raised e w)
  then show ?thesis by (simp add: install_invocations_def)
next
  case (absent p w)
  then show ?thesis by (simp add: install_invocations_def)
next
  case (extract_raised path w e w1)
  then show ?thesis by (simp add: install_invocations_def)
next
  case (seed_raised path w deps w1 e s2)
  then show ?thesis
    using pip_seed_loop[of E d deps "\<lparr>world = w1, downloaded_packages = {m},
          trace = [FetchCall m (Fetched (Some path))]\<rparr>"]
    by (simp add: install_invocations_def)
next
  case (looped path w deps w1 s2 b how s3)
  have "install_invocations (trace s2) = 0"
    using pip_seed_loop[of E d deps "\<lparr>world = w1, downloaded_packages = {m},
          trace = [FetchCall m (Fetched (Some path))]\<rparr>"] looped(4)
    by (simp add: install_invocations_def)
  then show ?thesis
    using pip_install_loop[of E m d mx False 0 s2] looped(5,6) by simp
qed

text \<open>
  Claim C3. The run is a total function of its inputs: the \<^verbatim>\<open>while\<close> loop is defined
  with the measure \<^verbatim>\<open>max_retries - attempt\<close>, and the two inner loops by recursion on
  the list they go through. For a positive bound the run invokes the install
  capability at most \<^verbatim>\<open>max_retries + 1\<close> times (in fact at most \<^verbatim>\<open>max_retries\<close> times,
  lemma \<open>run_installs\<close>), whatever the capabilities do.
\<close>

theorem bounded_install_invocations:
  "0 < max_retries \<Longrightarrow>
     int (install_invocations (trace (final (run E main_package_name download_dir max_retries w0))))
       \<le> max_retries + 1"
  using run_installs[of E main_package_name download_dir max_retries w0] by linarith

theorem bounded_install_invocations_witness:
  "(0::int) < 5 \<and>
   int (install_invocations (trace (final (run env_partial ''app'' ''downloads'' 5 empty_world))))
     \<le> 5 + 1
   \<and> install_invocations (trace (final (run env_partial ''app'' ''downloads'' 5 empty_world))) = 2"
proof -
  have a: "install_invocations (trace (final (run env_partial ''app'' ''downloads'' 5 empty_world))) = 2"
    by code_simp
  have b: "(0::int) < 5" by simp
  show ?thesis
    using a b bounded_install_invocations[OF b, of env_partial "''app''" "''downloads''" empty_world]
    by simp
qed

text \<open>
  Claim C5. If the fetch of the main package reports absence (\<^verbatim>\<open>None\<close>, or an empty
  path), the run returns \<^verbatim>\<open>False\<close> by the exit \<open>MainPackageUnavailable\<close>, with no install
  invocation and no fetch other than that of the main package.
\<close>

theorem main_package_unavailable:
  "fetch_func E main_package_name download_dir w0 = (Fetched p, w) \<Longrightarrow> \<not> truthy p \<Longrightarrow>
     outcome (run E main_package_name download_dir max_retries w0) = Returned False
     \<and> left_by (run E main_package_name download_dir max_retries w0) = MainPackageUnavailable
     \<and> install_invocations (trace (final (run E main_package_name download_dir max_retries w0))) = 0
     \<and> fetch_calls (trace (final (run E main_package_name download_dir max_retries w0)))
         = [main_package_name]"
  by (auto simp: run_def truthy_def install_invocations_def fetch_calls_def split: option.splits)

theorem main_package_unavailable_witness:
  "fetch_func env_absent ''app'' ''downloads'' empty_world = (Fetched None, empty_world)
   \<and> \<not> truthy None
   \<and> outcome (run env_absent ''app'' ''downloads'' 5 empty_world) = Returned False
   \<and> left_by (run env_absent ''app'' ''downloads'' 5 empty_world) = MainPackageUnavailable
   \<and> install_invocations (trace (final (run env_absent ''app'' ''downloads'' 5 empty_world))) = 0"
proof -
  have a: "fetch_func env_absent ''app'' ''downloads'' empty_world = (Fetched None, empty_world)"
    by (simp add: env_absent_def fetch_known_def)
  have b: "\<not> truthy None" by (simp add: truthy_def)
  show ?thesis
    using a b main_package_unavailable[OF a b, of 5] by simp
qed

text \<open>
  The invariant of \<^verbatim>\<open>downloaded_packages\<close> is kept by each of the three loops, whatever
  the fetch calls return: a name enters the set only in the branch of a truthy
  \<^verbatim>\<open>dep_path\<close>, and that call is on record.
\<close>

lemma fetched_ok_snoc: "fetched_ok (tr @ [e]) = fetched_ok tr \<union> set (path_returned e)"
  by (simp add: fetched_ok_def)

lemma fetched_ok_truthy:
  "truthy p \<Longrightarrow> set (path_returned (FetchCall n (Fetched p))) = {n}"
  by (cases p) (simp_all add: truthy_def)

lemma seed_loop_inv:
  "downloaded_inv m s \<Longrightarrow> downloaded_inv m (snd (seed_loop E d deps s))"
proof (induction deps arbitrary: s)
  case Nil
  then show ?case by simp
next
  case (Cons dep deps)
  show ?case
  proof (cases "dep \<in> downloaded_packages s")
    case True
    with Cons show ?thesis by simp
  next
    case False
    obtain r w where f: "fetch_func E dep d (world s) = (r, w)"
      by (cases "fetch_func E dep d (world s)")
    show ?thesis
    proof (cases r)
      case (FetchRaised e)
      with f False Cons.prems show ?thesis
        by (auto simp: downloaded_inv_def fetched_ok_snoc)
    next
      case (Fetched p)
      have "downloaded_inv m (s\<lparr>world := w,
                downloaded_packages :=
                  (if truthy p then insert dep (downloaded_packages s) else downloaded_packages s),
                trace := trace s @ [FetchCall dep (Fetched p)]\<rparr>)"
        using Cons.prems by (auto simp: downloaded_inv_def fetched_ok_snoc fetched_ok_truthy)
      then show ?thesis using f False Fetched Cons.IH by simp
    qed
  qed
qed

lemma download_loop_inv:
  "downloaded_inv m s \<Longrightarrow> downloaded_inv m (snd (snd (download_loop E d deps n s)))"
proof (induction deps arbitrary: s n)
  case Nil
  then show ?case by simp
next
  case (Cons dep deps)
  obtain r w where f: "fetch_func E dep d (world s) = (r, w)"
    by (cases "fetch_func E dep d (world s)")
  show ?case
  proof (cases r)
    case (FetchRaised e)
    with f Cons.prems show ?thesis
      by (auto simp: downloaded_inv_def fetched_ok_snoc)
  next
    case (Fetched p)
    show ?thesis
    proof (cases "truthy p")
      case True
      have "downloaded_inv m (s\<lparr>world := w,
                downloaded_packages := insert dep (downloaded_packages s),
                trace := trace s @ [FetchCall dep (Fetched p)]\<rparr>)"
        using Cons.prems True by (auto simp: downloaded_inv_def fetched_ok_snoc fetched_ok_truthy)
      then show ?thesis using f Fetched True Cons.IH by simp
    next
      case False
      have "downloaded_inv m (s\<lparr>world := w, trace := trace s @ [FetchCall dep (Fetched p)]\<rparr>)"
        using Cons.prems by (auto simp: downloaded_inv_def fetched_ok_snoc)
      then show ?thesis using f Fetched False Cons.IH by simp
    qed
  qed
qed

lemma install_loop_inv:
  "downloaded_inv m s \<Longrightarrow> downloaded_inv m (snd (snd (install_loop E m d mx inst attempt s)))"
proof -
  have "downloaded_inv m s \<longrightarrow> downloaded_inv m (snd (snd (install_loop E m d mx inst attempt s)))"
  proof (rule install_loop_result_induct
      [where P = "\<lambda>inst attempt s r. downloaded_inv m s \<longrightarrow> downloaded_inv m (snd (snd r))"])
    fix inst :: bool and attempt :: int and s :: "'a state"
    show "downloaded_inv m s \<longrightarrow>
       downloaded_inv m (snd (snd (inst, if inst then Success else MaxAttemptsExceeded, s)))"
      by simp
  next
    fix attempt :: int and s :: "'a state" and e w
    show "downloaded_inv m s \<longrightarrow> downloaded_inv m (snd (snd (False, AttemptRaised e,
          s\<lparr>world := w, trace := trace s @ [PipCall (pip_command E d m) (RunRaised e)]\<rparr>)))"
      by (auto simp: downloaded_inv_def fetched_ok_snoc)
  next
    fix attempt :: int and s s1 s2 :: "'a state" and rc out err w new r2 n
    assume s1: "s1 = s\<lparr>world := w,
            trace := trace s @ [PipCall (pip_command E d m) (Completed rc out err)]\<rparr>"
      and dl: "download_loop E d new 0 s1 = (r2, n, s2)"
      and IH: "rc \<noteq> 0 \<Longrightarrow> new \<noteq> [] \<Longrightarrow> r2 = None \<Longrightarrow> n \<noteq> 0 \<Longrightarrow>
        downloaded_inv m s2 \<longrightarrow>
        downloaded_inv m (snd (snd (install_loop E m d mx False (attempt + 1) s2)))"
    show "downloaded_inv m s \<longrightarrow> downloaded_inv m (snd (snd
        (if rc = 0 then (True, Success, s1)
         else if parse_pip_error_for_missing_deps err = [] then (False, Unparseable, s1)
         else if new = [] then (False, Stalled, s1)
         else (case r2 of
                 Some e \<Rightarrow> (False, AttemptRaised e, s2)
               | None \<Rightarrow> if n = 0 then (False, NoDownloadProgress, s2)
                         else install_loop E m d mx False (attempt + 1) s2))))"
    proof
      assume inv: "downloaded_inv m s"
      then have i1: "downloaded_inv m s1"
        by (auto simp: s1 downloaded_inv_def fetched_ok_snoc)
      then have i2: "downloaded_inv m s2"
        using download_loop_inv[of m s1 E d new 0] dl by simp
      show "downloaded_inv m (snd (snd
        (if rc = 0 then (True, Success, s1)
         else if parse_pip_error_for_missing_deps err = [] then (False, Unparseable, s1)
         else if new = [] then (False, Stalled, s1)
         else (case r2 of
                 Some e \<Rightarrow> (False, AttemptRaised e, s2)
               | None \<Rightarrow> if n = 0 then (False, NoDownloadProgress, s2)
                         else install_loop E m d mx False (attempt + 1) s2))))"
        using i1 i2 IH by (auto split: option.splits)
    qed
  qed
  then show "downloaded_inv m s \<Longrightarrow>
    downloaded_inv m (snd (snd (install_loop E m d mx inst attempt s)))" by simp
qed

lemma run_inv: "downloaded_inv m (final (run E m d mx w0))"
proof (cases rule: run_cases[of E m d w0 mx])
  case (fetch_raised e w)
  then show ?thesis by (simp add: downloaded_inv_def)
next
  case (absent p w)
  then show ?thesis by (simp add: downloaded_inv_def)
next
  case (extract_raised path w e w1)
  then show ?thesis by (simp add: downloaded_inv_def)
next
  case (seed_raised path w deps w1 e s2)
  have "downloaded_inv m \<lparr>world = w1, downloaded_packages = {m},
          trace = [FetchCall m (Fetched (Some path))]\<rparr>"
    by (simp add: downloaded_inv_def)
  then show ?thesis using seed_loop_inv[of m _ E d deps] seed_raised(4,5) by fastforce
next
  case (looped path w deps w1 s2 b how s3)
  have "downloaded_inv m \<lparr>world = w1, downloaded_packages = {m},
          trace = [FetchCall m (Fetched (Some path))]\<rparr>"
    by (simp add: downloaded_inv_def)
  then have "downloaded_inv m s2" using seed_loop_inv[of m _ E d deps] looped(4) by fastforce
  then show ?thesis using install_loop_inv[of m s2 E d mx False 0] looped(5,6) by simp
qed

text \<open>
  Claim C10. Every name in \<^verbatim>\<open>downloaded_packages\<close> is the main package name or a name
  for which a fetch call of this run returned a path. The seed loop, the download loop
  of an attempt and the \<^verbatim>\<open>while\<close> loop keep this from any state in which it holds, and
  it holds of the final state of every run; a fetch that reports absence adds nothing.
\<close>

theorem downloaded_only_fetched:
  "(downloaded_inv main_package_name s \<longrightarrow>
      downloaded_inv main_package_name (snd (seed_loop E download_dir deps s)))
   \<and> (downloaded_inv main_package_name s \<longrightarrow>
      downloaded_inv main_package_name (snd (snd (download_loop E download_dir deps n s))))
   \<and> (downloaded_inv main_package_name s \<longrightarrow>
      downloaded_inv main_package_name
        (snd (snd (install_loop E main_package_name download_dir max_retries inst attempt s))))
   \<and> downloaded_inv main_package_name
        (final (run E main_package_name download_dir max_retries w0))"
  by (simp add: seed_loop_inv download_loop_inv install_loop_inv run_inv)

theorem downloaded_only_fetched_witness:
  "downloaded_inv ''app'' seeded_state
   \<and> downloaded_inv ''app'' (snd (seed_loop env_partial ''downloads'' [''liba'', ''libb''] seeded_state))
   \<and> downloaded_inv ''app''
        (snd (snd (download_loop env_partial ''downloads'' [''liba'', ''libb''] 0 seeded_state)))
   \<and> downloaded_inv ''app''
        (snd (snd (install_loop env_partial ''app'' ''downloads'' 5 False 0 seeded_state)))
   \<and> downloaded_inv ''app'' (final (run env_partial ''app'' ''downloads'' 5 empty_world))
   \<and> downloaded_packages (final (run env_partial ''app'' ''downloads'' 5 empty_world))
        = {''app'', ''liba''}"
proof -
  have a: "downloaded_inv ''app'' seeded_state" by code_simp
  have b: "downloaded_packages (final (run env_partial ''app'' ''downloads'' 5 empty_world))
        = {''app'', ''liba''}" by code_simp
  show ?thesis
    using a b
      downloaded_only_fetched[of "''app''" seeded_state env_partial "''downloads''"
        "[''liba'', ''libb'']" 0 5 False 0 empty_world]
    by simp
qed

text \<open>
  What the caller gets. Only the \<^verbatim>\<open>while\<close> loop adds a pip run to the record, and it
  ends at the first run that exits with 0.
\<close>

lemma zero_seed_loop:
  "list_ex exited_zero (trace (snd (seed_loop E d deps s))) = list_ex exited_zero (trace s)"
  by (induction deps arbitrary: s) (auto split: prod.splits fetch_outcome.splits)

lemma zero_download_loop:
  "list_ex exited_zero (trace (snd (snd (download_loop E d deps n s))))
     = list_ex exited_zero (trace s)"
  by (induction deps arbitrary: s n) (auto split: prod.splits fetch_outcome.splits)

lemma install_loop_outcome:
  "\<not> list_ex exited_zero (trace s) \<Longrightarrow>
   install_loop E m d mx False attempt s = (b, how, s') \<Longrightarrow>
     Returned b = result_at how \<and> (how = Success) = list_ex exited_zero (trace s')
     \<and> how \<noteq> MainPackageUnavailable"
proof -
  let ?Q = "\<lambda>r. Returned (fst r) = result_at (fst (snd r))
      \<and> (fst (snd r) = Success) = list_ex exited_zero (trace (snd (snd r)))
      \<and> fst (snd r) \<noteq> MainPackageUnavailable"
  have "\<not> False \<longrightarrow> \<not> list_ex exited_zero (trace s) \<longrightarrow>
      ?Q (install_loop E m d mx False attempt s)"
  proof (rule install_loop_result_induct
      [where P = "\<lambda>inst attempt s r. \<not> inst \<longrightarrow> \<not> list_ex exited_zero (trace s) \<longrightarrow>
         Returned (fst r) = result_at (fst (snd r))
         \<and> (fst (snd r) = Success) = list_ex exited_zero (trace (snd (snd r)))
         \<and> fst (snd r) \<noteq> MainPackageUnavailable"])
    fix inst :: bool and attempt :: int and s :: "'a state"
    show "\<not> inst \<longrightarrow> \<not> list_ex exited_zero (trace s) \<longrightarrow>
       ?Q (inst, if inst then Success else MaxAttemptsExceeded, s)"
      by simp
  next
    fix attempt :: int and s :: "'a state" and e w
    show "\<not> False \<longrightarrow> \<not> list_ex exited_zero (trace s) \<longrightarrow>
       ?Q (False, AttemptRaised e,
          s\<lparr>world := w, trace := trace s @ [PipCall (pip_command E d m) (RunRaised e)]\<rparr>)"
      by simp
  next
    fix attempt :: int and s s1 s2 :: "'a state" and rc out err w new r2 n
    assume s1: "s1 = s\<lparr>world := w,
            trace := trace s @ [PipCall (pip_command E d m) (Completed rc out err)]\<rparr>"
      and dl: "download_loop E d new 0 s1 = (r2, n, s2)"
      and IH: "rc \<noteq> 0 \<Longrightarrow> new \<noteq> [] \<Longrightarrow> r2 = None \<Longrightarrow> n \<noteq> 0 \<Longrightarrow>
        \<not> False \<longrightarrow> \<not> list_ex exited_zero (trace s2) \<longrightarrow>
        ?Q (install_loop E m d mx False (attempt + 1) s2)"
    have z1: "list_ex exited_zero (trace s1) = (list_ex exited_zero (trace s) \<or> rc = 0)"
      by (simp add: s1)
    have z2: "list_ex exited_zero (trace s2) = list_ex exited_zero (trace s1)"
      using zero_download_loop[of E d new 0 s1] dl by simp
    show "\<not> False \<longrightarrow> \<not> list_ex exited_zero (trace s) \<longrightarrow> ?Q
        (if rc = 0 then (True, Success, s1)
         else if parse_pip_error_for_missing_deps err = [] then (False, Unparseable, s1)
         else if new = [] then (False, Stalled, s1)
         else (case r2 of
                 Some e \<Rightarrow> (False, AttemptRaised e, s2)
               | None \<Rightarrow> if n = 0 then (False, NoDownloadProgress, s2)
                         else install_loop E m d mx False (attempt + 1) s2))"
      using z1 z2 IH by (auto split: option.splits)
  qed
  then show "\<not> list_ex exited_zero (trace s) \<Longrightarrow>
   install_loop E m d mx False attempt s = (b, how, s') \<Longrightarrow>
     Returned b = result_at how \<and> (how = Success) = list_ex exited_zero (trace s')
     \<and> how \<noteq> MainPackageUnavailable"
    by simp
qed

lemma run_outcome:
  "outcome (run E m d mx w0) = result_at (left_by (run E m d mx w0))
   \<and> (left_by (run E m d mx w0) = Success)
       = list_ex exited_zero (trace (final (run E m d mx w0)))"
proof (cases rule: run_cases[of E m d w0 mx])
  case (fetch_raised e w)
  then show ?thesis by simp
next
  case (absent p w)
  then show ?thesis by simp
next
  case (extract_raised path w e w1)
  then show ?thesis by simp
next
  case (seed_raised path w deps w1 e s2)
  have "\<not> list_ex exited_zero (trace s2)"
    using zero_seed_loop[of E d deps "\<lparr>world = w1, downloaded_packages = {m},
          trace = [FetchCall m (Fetched (Some path))]\<rparr>"] seed_raised(4) by simp
  then show ?thesis using seed_raised(5) by simp
next
  case (looped path w deps w1 s2 b how s3)
  have "\<not> list_ex exited_zero (trace s2)"
    using zero_seed_loop[of E d deps "\<lparr>world = w1, downloaded_packages = {m},
          trace = [FetchCall m (Fetched (Some path))]\<rparr>"] looped(4) by simp
  then show ?thesis using install_loop_outcome[OF _ looped(5)] looped(6) by simp
qed

text \<open>
  Claim C2, as stated, fails: the returned value carries no reason. A run that ends
  because the main package is unavailable and a run that ends because the error text
  cannot be parsed return the same value \<^verbatim>\<open>False\<close>.
\<close>

theorem reason_not_returned_counterexample:
  "install_packages_locally env_absent ''app'' ''downloads'' 5 empty_world = Returned False
   \<and> install_packages_locally env_unparseable ''app'' ''downloads'' 5 empty_world = Returned False
   \<and> left_by (run env_absent ''app'' ''downloads'' 5 empty_world) = MainPackageUnavailable
   \<and> left_by (run env_unparseable ''app'' ''downloads'' 5 empty_world) = Unparseable
   \<and> MainPackageUnavailable \<noteq> Unparseable"
  by code_simp

text \<open>
  Claim C2, amended. The value returned is determined by the exit taken: \<^verbatim>\<open>True\<close> at
  the exit \<open>Success\<close>, \<^verbatim>\<open>False\<close> at every other exit that returns (the five failure
  conditions, and an exception caught during an attempt); an exception of the seed
  phase is not caught. And \<^verbatim>\<open>True\<close> is returned exactly when a pip run of this run
  exited with status 0.
\<close>

theorem returned_value_is_boolean:
  "install_packages_locally E main_package_name download_dir max_retries w0
     = result_at (left_by (run E main_package_name download_dir max_retries w0))
   \<and> (install_packages_locally E main_package_name download_dir max_retries w0 = Returned True)
       = list_ex exited_zero
           (trace (final (run E main_package_name download_dir max_retries w0)))"
proof -
  have "(result_at how = Returned True) = (how = Success)" for how
    by (cases how) simp_all
  then show ?thesis
    using run_outcome[of E main_package_name download_dir max_retries w0]
    by (simp add: install_packages_locally_def)
qed

theorem returned_value_is_boolean_witness:
  "install_packages_locally env_success ''app'' ''downloads'' 5 empty_world = Returned True
   \<and> left_by (run env_success ''app'' ''downloads'' 5 empty_world) = Success
   \<and> list_ex exited_zero (trace (final (run env_success ''app'' ''downloads'' 5 empty_world)))"
proof -
  have "left_by (run env_success ''app'' ''downloads'' 5 empty_world) = Success"
    by code_simp
  then show ?thesis
    using returned_value_is_boolean[of env_success "''app''" "''downloads''" 5 empty_world]
    by auto
qed

text \<open>The stall: every name parsed from the error text is already in the set.\<close>

lemma install_loop_stalled:
  assumes lt: "attempt < mx"
    and run: "subprocess_run E (pip_command E d m) (world s) = (Completed rc out err, w)"
    and nz: "rc \<noteq> 0"
    and ne: "parse_pip_error_for_missing_deps err \<noteq> []"
    and sub: "set (parse_pip_error_for_missing_deps err) \<subseteq> downloaded_packages s"
  shows "install_loop E m d mx False attempt s =
     (False, Stalled,
      s\<lparr>world := w, trace := trace s @ [PipCall (pip_command E d m) (Completed rc out err)]\<rparr>)"
proof -
  define s1 where "s1 = s\<lparr>world := w,
      trace := trace s @ [PipCall (pip_command E d m) (Completed rc out err)]\<rparr>"
  have "filter (\<lambda>x. x \<notin> downloaded_packages s1) (parse_pip_error_for_missing_deps err) = []"
    using sub by (auto simp: s1_def filter_empty_conv)
  then have new: "[] = filter (\<lambda>x. x \<notin> downloaded_packages s1)
      (parse_pip_error_for_missing_deps err)"
    by simp
  have dl: "download_loop E d [] 0 s1 = (None, 0, s1)" by simp
  show ?thesis
    using install_loop_completed[OF _ lt run s1_def new dl] nz ne
    by (simp add: s1_def)
qed

lemma seed_loop_no_raise:
  "fetch_always_succeeds E \<Longrightarrow> fst (seed_loop E d deps s) = None"
proof (induction deps arbitrary: s)
  case Nil
  show ?case by simp
next
  case (Cons dep deps)
  from Cons.prems obtain p w where "fetch_func E dep d (world s) = (Fetched (Some p), w)"
    unfolding fetch_always_succeeds_def by blast
  then show ?case using Cons.IH[OF Cons.prems] by simp
qed

lemma stall_within_two:
  assumes fs: "fetch_always_succeeds E" and ir: "install_always_reports E x"
    and lt: "attempt + 2 \<le> mx"
  shows "\<exists>s'. install_loop E m d mx False attempt s = (False, Stalled, s')
     \<and> install_invocations (trace s') \<le> install_invocations (trace s) + 2"
proof -
  have at_once: "\<exists>s'. install_loop E m d mx False a t = (False, Stalled, s')
      \<and> install_invocations (trace s') = install_invocations (trace t) + 1"
    if "a < mx" "x \<in> downloaded_packages t" for a and t :: "'a state"
  proof -
    from ir obtain rc out err w where
      run: "subprocess_run E (pip_command E d m) (world t) = (Completed rc out err, w)"
      and nz: "rc \<noteq> 0" and px: "parse_pip_error_for_missing_deps err = [x]"
      unfolding install_always_reports_def by blast
    have "install_loop E m d mx False a t =
     (False, Stalled,
      t\<lparr>world := w, trace := trace t @ [PipCall (pip_command E d m) (Completed rc out err)]\<rparr>)"
      using that px by (intro install_loop_stalled[OF that(1) run nz]) simp_all
    then show ?thesis by (simp add: install_invocations_def)
  qed
  show ?thesis
  proof (cases "x \<in> downloaded_packages s")
    case True
    have "attempt < mx" using lt by simp
    from at_once[OF this True] show ?thesis by auto
  next
    case False
    from ir obtain rc out err w where
      run: "subprocess_run E (pip_command E d m) (world s) = (Completed rc out err, w)"
      and nz: "rc \<noteq> 0" and px: "parse_pip_error_for_missing_deps err = [x]"
      unfolding install_always_reports_def by blast
    define s1 where "s1 = s\<lparr>world := w,
      trace := trace s @ [PipCall (pip_command E d m) (Completed rc out err)]\<rparr>"
    from fs obtain p w' where f: "fetch_func E x d (world s1) = (Fetched (Some p), w')"
      and p: "p \<noteq> []"
      unfolding fetch_always_succeeds_def by blast
    define s2 where "s2 = s1\<lparr>world := w',
        downloaded_packages := insert x (downloaded_packages s1),
        trace := trace s1 @ [FetchCall x (Fetched (Some p))]\<rparr>"
    have new: "[x] = filter (\<lambda>y. y \<notin> downloaded_packages s1) (parse_pip_error_for_missing_deps err)"
      using False px by (simp add: s1_def)
    have dl: "download_loop E d [x] 0 s1 = (None, 1, s2)"
      using f p by (simp add: truthy_def s2_def)
    have lt0: "attempt < mx" using lt by simp
    have step: "install_loop E m d mx False attempt s = install_loop E m d mx False (attempt + 1) s2"
      using install_loop_completed[OF _ lt0 run s1_def new dl] nz px by simp
    have c: "install_invocations (trace s2) = install_invocations (trace s) + 1"
      by (simp add: s2_def s1_def install_invocations_def)
    have "attempt + 1 < mx" using lt by simp
    moreover have "x \<in> downloaded_packages s2" by (simp add: s2_def)
    ultimately obtain s' where "install_loop E m d mx False (attempt + 1) s2 = (False, Stalled, s')"
      and "install_invocations (trace s') = install_invocations (trace s2) + 1"
      using at_once by blast
    with step c show ?thesis by simp
  qed
qed

lemma run_stalls:
  assumes fs: "fetch_always_succeeds E" and ir: "install_always_reports E x"
    and mx: "2 \<le> mx"
    and ft: "fetch_func E m d w0 = (Fetched (Some path0), wa)"
    and ex: "extract_dependencies_from_whl path0 wa = (Inr deps0, wb)"
  shows "outcome (run E m d mx w0) = Returned False \<and> left_by (run E m d mx w0) = Stalled
     \<and> install_invocations (trace (final (run E m d mx w0))) \<le> 2"
proof (cases rule: run_cases[of E m d w0 mx])
  case (fetch_raised e w)
  with fs show ?thesis unfolding fetch_always_succeeds_def by (metis fetch_outcome.distinct(1) fst_conv)
next
  case (absent p w)
  from fs obtain q w' where "fetch_func E m d w0 = (Fetched (Some q), w')" "q \<noteq> []"
    unfolding fetch_always_succeeds_def by blast
  with absent(1,2) show ?thesis by (auto simp: truthy_def)
next
  case (extract_raised path w e w1)
  with ft ex show ?thesis by simp
next
  case (seed_raised path w deps w1 e s2)
  with seed_loop_no_raise[OF fs, of d deps] show ?thesis by (metis fst_conv option.distinct(1))
next
  case (looped path w deps w1 s2 b how s3)
  have z: "install_invocations (trace s2) = 0"
    using pip_seed_loop[of E d deps "\<lparr>world = w1, downloaded_packages = {m},
          trace = [FetchCall m (Fetched (Some path))]\<rparr>"] looped(4)
    by (simp add: install_invocations_def)
  have "0 + 2 \<le> mx" using mx by simp
  from stall_within_two[OF fs ir this, of m d s2] looped(5,6) z show ?thesis by auto
qed

text \<open>
  Claim C4, as stated, fails in its scenario. With a fetch capability that always
  returns a path and an install capability that always fails reporting \<^verbatim>\<open>libx\<close>, a run
  with \<^verbatim>\<open>max_retries = 1\<close> fetches \<^verbatim>\<open>libx\<close> in its one attempt and is then ended by
  the loop bound, not by the exit \<open>Stalled\<close>; and a run in a world where a regular file
  stands at the temporary path of the metadata extraction is left by the exception
  of the cleanup before any install invocation.
\<close>

theorem stall_scenario_counterexample:
  "fetch_always_succeeds env_stall \<and> install_always_reports env_stall ''libx''
   \<and> left_by (run env_stall ''app'' ''downloads'' 1 empty_world) = MaxAttemptsExceeded
   \<and> install_invocations (trace (final (run env_stall ''app'' ''downloads'' 1 empty_world))) = 1
   \<and> left_by (run env_stall ''app'' ''downloads'' 5 blocked_world) = Uncaught NotADirectoryError
   \<and> install_invocations (trace (final (run env_stall ''app'' ''downloads'' 5 blocked_world))) = 0"
proof -
  have px: "parse_pip_error_for_missing_deps ''ERROR: No matching distribution found for libx''
      = [''libx'']" by code_simp
  have a: "fetch_always_succeeds env_stall"
    by (simp add: fetch_always_succeeds_def env_stall_def fetch_any_def Let_def)
  have b: "install_always_reports env_stall ''libx''"
    by (simp add: install_always_reports_def env_stall_def pip_fails_def px)
  have c: "left_by (run env_stall ''app'' ''downloads'' 1 empty_world) = MaxAttemptsExceeded
   \<and> install_invocations (trace (final (run env_stall ''app'' ''downloads'' 1 empty_world))) = 1
   \<and> left_by (run env_stall ''app'' ''downloads'' 5 blocked_world) = Uncaught NotADirectoryError
   \<and> install_invocations (trace (final (run env_stall ''app'' ''downloads'' 5 blocked_world))) = 0"
    by code_simp
  from a b c show ?thesis by simp
qed

text \<open>
  Claim C4, amended. If an attempt fails and every name parsed from its error text is
  already in \<^verbatim>\<open>downloaded_packages\<close> (and there is at least one), the loop is left at
  once by the exit \<open>Stalled\<close>: the result state has the pip run as its last call, no
  fetch and no further attempt. In particular, with a fetch capability that always
  returns a path and an install capability that always fails reporting the one name
  \<open>x\<close>, a run that is allowed a second attempt and whose metadata extraction returns
  gives \<^verbatim>\<open>False\<close> by the exit \<open>Stalled\<close> after at most two install invocations.
\<close>

theorem stalled_stops_at_once:
  "(attempt < max_retries
      \<and> subprocess_run E (pip_command E download_dir main_package_name) (world s)
           = (Completed returncode out err, w)
      \<and> returncode \<noteq> 0
      \<and> parse_pip_error_for_missing_deps err \<noteq> []
      \<and> set (parse_pip_error_for_missing_deps err) \<subseteq> downloaded_packages s
    \<longrightarrow> install_loop E main_package_name download_dir max_retries False attempt s
          = (False, Stalled,
             s\<lparr>world := w,
               trace := trace s @ [PipCall (pip_command E download_dir main_package_name)
                                      (Completed returncode out err)]\<rparr>))
   \<and> (fetch_always_succeeds E \<and> install_always_reports E x \<and> 2 \<le> max_retries
      \<and> fetch_func E main_package_name download_dir w0 = (Fetched (Some path), wa)
      \<and> extract_dependencies_from_whl path wa = (Inr deps, wb)
    \<longrightarrow> outcome (run E main_package_name download_dir max_retries w0) = Returned False
        \<and> left_by (run E main_package_name download_dir max_retries w0) = Stalled
        \<and> install_invocations
            (trace (final (run E main_package_name download_dir max_retries w0))) \<le> 2)"
  using install_loop_stalled[of attempt max_retries E download_dir main_package_name s returncode out err w]
    run_stalls[of E x max_retries main_package_name download_dir w0 path wa deps wb]
  by blast

theorem stalled_stops_at_once_witness:
  "fetch_always_succeeds env_stall \<and> install_always_reports env_stall ''libx''
   \<and> fst (fetch_func env_stall ''app'' ''downloads'' empty_world)
        = Fetched (Some ''downloads/app-1.0-py3-none-any.whl'')
   \<and> fst (extract_dependencies_from_whl ''downloads/app-1.0-py3-none-any.whl''
            (snd (fetch_func env_stall ''app'' ''downloads'' empty_world))) = Inr []
   \<and> left_by (run env_stall ''app'' ''downloads'' 5 empty_world) = Stalled
   \<and> install_invocations (trace (final (run env_stall ''app'' ''downloads'' 5 empty_world))) \<le> 2
   \<and> set (parse_pip_error_for_missing_deps ''ERROR: No matching distribution found for libx'')
        \<subseteq> downloaded_packages stalled_state
   \<and> install_loop env_stall ''app'' ''downloads'' 5 False 0 stalled_state
        = (False, Stalled,
           stalled_state\<lparr>world := empty_world,
             trace := trace stalled_state
               @ [PipCall (pip_command env_stall ''downloads'' ''app'')
                    (Completed 1 [] ''ERROR: No matching distribution found for libx'')]\<rparr>)"
proof -
  let ?wa = "snd (fetch_func env_stall ''app'' ''downloads'' empty_world)"
  let ?wb = "snd (extract_dependencies_from_whl ''downloads/app-1.0-py3-none-any.whl'' ?wa)"
  have px: "parse_pip_error_for_missing_deps ''ERROR: No matching distribution found for libx''
      = [''libx'']" by code_simp
  have a: "fetch_always_succeeds env_stall"
    by (simp add: fetch_always_succeeds_def env_stall_def fetch_any_def Let_def)
  have b: "install_always_reports env_stall ''libx''"
    by (simp add: install_always_reports_def env_stall_def pip_fails_def px)
  have c: "(2::int) \<le> 5" by simp
  have d: "(0::int) < 5" by simp
  have e: "subprocess_run env_stall (pip_command env_stall ''downloads'' ''app'') (world stalled_state)
      = (Completed 1 [] ''ERROR: No matching distribution found for libx'', empty_world)"
    by (simp add: env_stall_def pip_fails_def stalled_state_def)
  have f: "(1::int) \<noteq> 0" by simp
  have g: "parse_pip_error_for_missing_deps ''ERROR: No matching distribution found for libx'' \<noteq> []"
    by (simp add: px)
  have h: "set (parse_pip_error_for_missing_deps ''ERROR: No matching distribution found for libx'')
        \<subseteq> downloaded_packages stalled_state"
    by (simp add: px stalled_state_def)
  have i1: "fst (fetch_func env_stall ''app'' ''downloads'' empty_world)
        = Fetched (Some ''downloads/app-1.0-py3-none-any.whl'')"
    by (simp add: env_stall_def fetch_any_def Let_def)
  then have i: "fetch_func env_stall ''app'' ''downloads'' empty_world
        = (Fetched (Some ''downloads/app-1.0-py3-none-any.whl''), ?wa)"
    by (metis prod.collapse)
  have j1: "fst (extract_dependencies_from_whl ''downloads/app-1.0-py3-none-any.whl'' ?wa) = Inr []"
    by code_simp
  then have j: "extract_dependencies_from_whl ''downloads/app-1.0-py3-none-any.whl'' ?wa
        = (Inr [], ?wb)"
    by (metis prod.collapse)
  show ?thesis
    using a b c d e f g h i1 j1
      stalled_stops_at_once[of 0 5 env_stall "''downloads''" "''app''" stalled_state 1 "[]"
        "''ERROR: No matching distribution found for libx''" empty_world "''libx''" empty_world
        "''downloads/app-1.0-py3-none-any.whl''" ?wa "[]" ?wb] i j
    by blast
qed





end
